theory Spec2Isabelle
  imports Main "HOL-Library.Word"
begin

unbundle bit_operations_syntax

section \<open>Lock manager (record.go)\<close>

text \<open>
  A \<open>RecordLock\<close> holds a mutex, a condition variable, two counters and the writer queue.
  Every access to the counters and the queue happens while \<open>Lock\<close> is held, so each
  critical section is one atomic step of the model, and \<open>Cond.Wait\<close> (which releases the
  mutex and re-checks the loop condition after waking up) is a step that is not enabled:
  the functions below return \<open>None\<close> exactly where the Go loop would call \<open>Wait\<close>.
  \<open>Cond.Broadcast\<close> changes no field.

  The element pointer returned by \<open>WrQueue.PushBack\<close> is modelled as a natural number
  (a \<open>marker\<close>); it differs from every element that is in the list at that moment.
  Go's \<open>int\<close> counters are modelled as \<open>int\<close>: \<open>NumReading\<close> counts calls that hold
  the global gate in shared mode, far fewer than \<open>2^63\<close>.
\<close>

type_synonym marker = nat

record RecordLock =
  NumReading :: int
  NumWriting :: int
  WrQueue :: "marker list"

definition NewRecordLock :: RecordLock where
  "NewRecordLock = \<lparr>NumReading = 0, NumWriting = 0, WrQueue = []\<rparr>"

text \<open>The global \<open>sync.RWMutex\<close>: the number of shared holders and the exclusive flag.\<close>

record RWMutex =
  readers :: nat
  writer :: bool

record GlobalManager =
  TrainerRecLocks :: "16 word \<rightharpoonup> RecordLock"
  GlobalLock :: RWMutex

definition NewGlobalManager :: GlobalManager where
  "NewGlobalManager =
     \<lparr>TrainerRecLocks = Map.empty, GlobalLock = \<lparr>readers = 0, writer = False\<rparr>\<rparr>"

text \<open>\<open>GetRecordLock\<close>: look the id up, inserting a new \<open>RecordLock\<close> when it is absent.\<close>

definition GetRecordLock :: "GlobalManager \<Rightarrow> 16 word \<Rightarrow> RecordLock \<times> GlobalManager" where
  "GetRecordLock m ident =
     (case TrainerRecLocks m ident of
        Some rec_lock \<Rightarrow> (rec_lock, m)
      | None \<Rightarrow> (NewRecordLock,
                 m\<lparr>TrainerRecLocks := (TrainerRecLocks m)(ident \<mapsto> NewRecordLock)\<rparr>))"

subsection \<open>The critical sections on one RecordLock\<close>

text \<open>\<open>RLockRecord\<close>, lines 92 to 98: wait while a writer is active or queued, then count in.\<close>

definition RLockRecord_section :: "RecordLock \<Rightarrow> RecordLock option" where
  "RLockRecord_section rec_lock =
     (if NumWriting rec_lock > 0 \<or> length (WrQueue rec_lock) > 0 then None
      else Some (rec_lock\<lparr>NumReading := NumReading rec_lock + 1\<rparr>))"

text \<open>\<open>RUnlockRecord\<close>, lines 112 to 119: count out unless the counter is already 0.\<close>

definition RUnlockRecord_section :: "RecordLock \<Rightarrow> RecordLock" where
  "RUnlockRecord_section rec_lock =
     (if NumReading rec_lock > 0 then rec_lock\<lparr>NumReading := NumReading rec_lock - 1\<rparr>
      else rec_lock)"

text \<open>\<open>WLockRecord\<close>, line 138: push a fresh marker at the back of the queue.\<close>

definition WLockRecord_enqueue :: "marker \<Rightarrow> RecordLock \<Rightarrow> RecordLock option" where
  "WLockRecord_enqueue waiter rec_lock =
     (if waiter \<in> set (WrQueue rec_lock) then None
      else Some (rec_lock\<lparr>WrQueue := WrQueue rec_lock @ [waiter]\<rparr>))"

text \<open>
  \<open>WLockRecord\<close>, lines 144 to 154: one pass of the loop that finds the three conditions
  true, followed by the removal of the marker and \<open>NumWriting = 1\<close>.
\<close>

definition WLockRecord_acquire :: "marker \<Rightarrow> RecordLock \<Rightarrow> RecordLock option" where
  "WLockRecord_acquire waiter rec_lock =
     (case WrQueue rec_lock of
        [] \<Rightarrow> None
      | front # _ \<Rightarrow>
          if front = waiter \<and> NumReading rec_lock = 0 \<and> NumWriting rec_lock = 0
          then Some (rec_lock\<lparr>WrQueue := remove1 waiter (WrQueue rec_lock), NumWriting := 1\<rparr>)
          else None)"

text \<open>\<open>WUnlockRecord\<close>, lines 169 to 173.\<close>

definition WUnlockRecord_section :: "RecordLock \<Rightarrow> RecordLock" where
  "WUnlockRecord_section rec_lock = rec_lock\<lparr>NumWriting := 0\<rparr>"

subsection \<open>Atomic steps of the manager and their interleavings\<close>

text \<open>
  An event is one atomic action of one caller. \<open>RLockRecord(id)\<close> is \<open>GateRLock\<close> followed,
  later, by \<open>RLockEnter id\<close>; \<open>RUnlockRecord(id)\<close> is \<open>RUnlockLeave id\<close> followed by
  \<open>GateRUnlock\<close>; \<open>WLockRecord(id)\<close> is \<open>GateRLock\<close>, \<open>WLockEnqueue id w\<close> and, later,
  \<open>WLockEnter id w\<close>; \<open>WUnlockRecord(id)\<close> is \<open>WUnlockLeave id\<close> followed by
  \<open>GateRUnlock\<close>. Events of different callers interleave freely. A step yields \<open>None\<close>
  when the caller cannot take it in that state (it blocks, or, for an unlock of a gate
  that is not held, the runtime aborts the process).
\<close>

datatype event =
    GateRLock
  | GateRUnlock
  | LockReadAll
  | UnlockReadAll
  | RLockEnter "16 word"
  | RUnlockLeave "16 word"
  | WLockEnqueue "16 word" marker
  | WLockEnter "16 word" marker
  | WUnlockLeave "16 word"

definition on_record ::
  "16 word \<Rightarrow> (RecordLock \<Rightarrow> RecordLock option) \<Rightarrow> GlobalManager \<Rightarrow> GlobalManager option" where
  "on_record ident f m =
     (case GetRecordLock m ident of
        (rec_lock, m') \<Rightarrow>
          (case f rec_lock of
             None \<Rightarrow> None
           | Some rec_lock' \<Rightarrow>
               Some (m'\<lparr>TrainerRecLocks := (TrainerRecLocks m')(ident \<mapsto> rec_lock')\<rparr>)))"

fun step :: "event \<Rightarrow> GlobalManager \<Rightarrow> GlobalManager option" where
  "step GateRLock m =
     (if writer (GlobalLock m) then None
      else Some (m\<lparr>GlobalLock := (GlobalLock m)\<lparr>readers := readers (GlobalLock m) + 1\<rparr>\<rparr>))"
| "step GateRUnlock m =
     (if readers (GlobalLock m) = 0 then None
      else Some (m\<lparr>GlobalLock := (GlobalLock m)\<lparr>readers := readers (GlobalLock m) - 1\<rparr>\<rparr>))"
| "step LockReadAll m =
     (if writer (GlobalLock m) \<or> readers (GlobalLock m) > 0 then None
      else Some (m\<lparr>GlobalLock := (GlobalLock m)\<lparr>writer := True\<rparr>\<rparr>))"
| "step UnlockReadAll m =
     (if writer (GlobalLock m) then Some (m\<lparr>GlobalLock := (GlobalLock m)\<lparr>writer := False\<rparr>\<rparr>)
      else None)"
| "step (RLockEnter ident) m = on_record ident RLockRecord_section m"
| "step (RUnlockLeave ident) m = on_record ident (\<lambda>l. Some (RUnlockRecord_section l)) m"
| "step (WLockEnqueue ident waiter) m = on_record ident (WLockRecord_enqueue waiter) m"
| "step (WLockEnter ident waiter) m = on_record ident (WLockRecord_acquire waiter) m"
| "step (WUnlockLeave ident) m = on_record ident (\<lambda>l. Some (WUnlockRecord_section l)) m"

fun run :: "event list \<Rightarrow> GlobalManager \<Rightarrow> GlobalManager option" where
  "run [] m = Some m"
| "run (e # es) m = (case step e m of None \<Rightarrow> None | Some m' \<Rightarrow> run es m')"

text \<open>The state of an id's lock; an absent entry stands for the zero state.\<close>

definition lock_of :: "GlobalManager \<Rightarrow> 16 word \<Rightarrow> RecordLock" where
  "lock_of m ident = (case TrainerRecLocks m ident of None \<Rightarrow> NewRecordLock | Some l \<Rightarrow> l)"

text \<open>The markers enqueued by, and the markers granted to, the writers of an id, in order.\<close>

fun enqueued :: "16 word \<Rightarrow> event list \<Rightarrow> marker list" where
  "enqueued ident [] = []"
| "enqueued ident (WLockEnqueue i w # es) =
     (if i = ident then w # enqueued ident es else enqueued ident es)"
| "enqueued ident (_ # es) = enqueued ident es"

fun granted :: "16 word \<Rightarrow> event list \<Rightarrow> marker list" where
  "granted ident [] = []"
| "granted ident (WLockEnter i w # es) =
     (if i = ident then w # granted ident es else granted ident es)"
| "granted ident (_ # es) = granted ident es"

definition counters_ok :: "RecordLock \<Rightarrow> bool" where
  "counters_ok l \<longleftrightarrow> 0 \<le> NumReading l \<and> (NumWriting l = 0 \<or> NumWriting l = 1)"

definition exclusive :: "RecordLock \<Rightarrow> bool" where
  "exclusive l \<longleftrightarrow> (NumWriting l = 1 \<longrightarrow> NumReading l = 0)"

text \<open>
  What one event does to the lock of \<open>ident\<close>: events on other ids and on the gate leave
  it alone.
\<close>

fun local_step :: "16 word \<Rightarrow> event \<Rightarrow> RecordLock \<Rightarrow> RecordLock option" where
  "local_step ident (RLockEnter i) l = (if i = ident then RLockRecord_section l else Some l)"
| "local_step ident (RUnlockLeave i) l = (if i = ident then Some (RUnlockRecord_section l) else Some l)"
| "local_step ident (WLockEnqueue i w) l = (if i = ident then WLockRecord_enqueue w l else Some l)"
| "local_step ident (WLockEnter i w) l = (if i = ident then WLockRecord_acquire w l else Some l)"
| "local_step ident (WUnlockLeave i) l = (if i = ident then Some (WUnlockRecord_section l) else Some l)"
| "local_step ident _ l = Some l"

text \<open>
  Concrete interleavings: a reader that comes and goes before a writer acquires; two
  writers, the first active and the second queued when a reader arrives; and what happens
  on the lock while that reader waits.
\<close>

definition write_after_read_trace :: "event list" where
  "write_after_read_trace =
     [GateRLock, RLockEnter 7, RUnlockLeave 7, GateRLock, WLockEnqueue 7 0, WLockEnter 7 0]"

definition arrival_trace :: "event list" where
  "arrival_trace =
     [GateRLock, WLockEnqueue 1 0, WLockEnter 1 0, GateRLock, WLockEnqueue 1 1, GateRLock]"

definition waiting_trace :: "event list" where
  "waiting_trace = [WUnlockLeave 1, GateRUnlock, WLockEnter 1 1, WUnlockLeave 1, GateRUnlock]"

section \<open>Record store (record.go)\<close>

text \<open>
  A file is the list of its bytes. Every read and write of record.go is preceded, on the
  same handle, by a \<open>Seek\<close> to an absolute offset (or to the end of the file). Each
  operation is modelled as it runs when nothing else moves the offset of the handle
  between its seek and its access, so the two are one positional access and the offset
  is not part of the state. Failures of the operating system on the two data
  files (\<open>Stat\<close>, \<open>Seek\<close>, \<open>Sync\<close>, a failing disk) are outside the model; the end of
  the file is not.
\<close>

type_synonym byte = "8 word"

datatype error =
    EOF
  | ErrUnexpectedEOF
  | ErrRange
  | ErrIO
  | Errorf string

text \<open>The text of an error, as \<open>err.Error()\<close> and the verb \<open>%s\<close> give it.\<close>

fun Error :: "error \<Rightarrow> string" where
  "Error EOF = ''EOF''"
| "Error ErrUnexpectedEOF = ''unexpected EOF''"
| "Error ErrRange = ''value out of range''"
| "Error ErrIO = ''input/output error''"
| "Error (Errorf msg) = msg"

text \<open>
  \<open>Seek(offset, 0)\<close> then \<open>binary.Read\<close> of a value of \<open>n\<close> bytes (\<open>n > 0\<close>). The read is
  \<open>io.ReadFull\<close>: \<open>io.EOF\<close> when no byte is left at the offset, \<open>io.ErrUnexpectedEOF\<close>
  when some but fewer than \<open>n\<close> are. Seeking past the end is not an error.
\<close>

definition seek_read :: "byte list \<Rightarrow> nat \<Rightarrow> nat \<Rightarrow> error + byte list" where
  "seek_read file offset n =
     (let avail = drop offset file in
      if n \<le> length avail then Inr (take n avail)
      else if avail = [] then Inl EOF
      else Inl ErrUnexpectedEOF)"

text \<open>
  \<open>Seek\<close> then \<open>binary.Write\<close> of the bytes \<open>bs\<close>: the bytes replace what is at the offset
  and extend the file where they reach past its end (a gap before them reads as zeros).
\<close>

definition seek_write :: "byte list \<Rightarrow> nat \<Rightarrow> byte list \<Rightarrow> byte list" where
  "seek_write file offset bs =
     (if offset \<le> length file
      then take offset file @ bs @ drop (offset + length bs) file
      else file @ replicate (offset - length file) 0 @ bs)"

subsection \<open>Record layout\<close>

text \<open>\<open>binary.LittleEndian\<close> on a \<open>uint16\<close>: the low byte first.\<close>

definition put_uint16 :: "16 word \<Rightarrow> byte list" where
  "put_uint16 w = [ucast w, ucast (drop_bit 8 w)]"

definition get_uint16 :: "byte list \<Rightarrow> 16 word" where
  "get_uint16 bs = ucast (bs ! 0) OR push_bit 8 (ucast (bs ! 1))"

text \<open>
  The fields of the structs in declaration order. A byte array \<open>[n]byte\<close> is a list of
  \<open>n\<close> bytes. Both structs hold only \<open>uint8\<close>, \<open>uint16\<close> and byte arrays and every
  \<open>uint16\<close> falls on an even offset, so \<open>unsafe.Sizeof\<close> (used for the offsets) and
  \<open>binary.Size\<close> (used by the reads and writes) agree: 96 bytes for \<open>PokeRec\<close>, 102 for
  \<open>TrainerRec\<close>.
\<close>

record PokeRec =
  PokeID :: "16 word"
  PokeName :: "byte list"
  Type1 :: "byte list"
  Type2 :: "byte list"
  HP :: byte
  Attack :: byte
  Defense :: byte
  SpAtk :: byte
  SpDef :: byte
  Speed :: byte
  Generation :: byte
  IsLegendary :: byte
  Color :: "byte list"
  HasGender :: byte
  PrMale :: byte
  EggGroup1 :: "byte list"
  EggGroup2 :: "byte list"
  HasMegaEvo :: byte
  HeightM :: "16 word"
  WeightKg :: "16 word"
  CatchRate :: byte
  BodyStyle :: "byte list"

record PokeDisplay =
  DisplayID :: "16 word"
  DisplayName :: "byte list"

record TrainerRec =
  ID :: "16 word"
  Name :: "byte list"
  Poke1 :: PokeDisplay
  Poke2 :: PokeDisplay
  Poke3 :: PokeDisplay
  Poke4 :: PokeDisplay
  Poke5 :: PokeDisplay
  Poke6 :: PokeDisplay

definition PokeRec_size :: nat where
  "PokeRec_size = 96"

definition TrainerRec_size :: nat where
  "TrainerRec_size = 102"

definition bytes_at :: "byte list \<Rightarrow> nat \<Rightarrow> nat \<Rightarrow> byte list" where
  "bytes_at bs offset n = take n (drop offset bs)"

definition decode_PokeRec :: "byte list \<Rightarrow> PokeRec" where
  "decode_PokeRec bs =
     \<lparr>PokeID = get_uint16 (bytes_at bs 0 2), PokeName = bytes_at bs 2 12,
      Type1 = bytes_at bs 14 9, Type2 = bytes_at bs 23 9,
      HP = bs ! 32, Attack = bs ! 33, Defense = bs ! 34, SpAtk = bs ! 35,
      SpDef = bs ! 36, Speed = bs ! 37, Generation = bs ! 38, IsLegendary = bs ! 39,
      Color = bytes_at bs 40 7, HasGender = bs ! 47, PrMale = bs ! 48,
      EggGroup1 = bytes_at bs 49 13, EggGroup2 = bytes_at bs 62 11, HasMegaEvo = bs ! 73,
      HeightM = get_uint16 (bytes_at bs 74 2), WeightKg = get_uint16 (bytes_at bs 76 2),
      CatchRate = bs ! 78, BodyStyle = bytes_at bs 79 17\<rparr>"

definition encode_PokeDisplay :: "PokeDisplay \<Rightarrow> byte list" where
  "encode_PokeDisplay d = put_uint16 (DisplayID d) @ DisplayName d"

definition decode_PokeDisplay :: "byte list \<Rightarrow> PokeDisplay" where
  "decode_PokeDisplay bs = \<lparr>DisplayID = get_uint16 (bytes_at bs 0 2), DisplayName = bytes_at bs 2 12\<rparr>"

definition slots :: "TrainerRec \<Rightarrow> PokeDisplay list" where
  "slots t = [Poke1 t, Poke2 t, Poke3 t, Poke4 t, Poke5 t, Poke6 t]"

definition encode_TrainerRec :: "TrainerRec \<Rightarrow> byte list" where
  "encode_TrainerRec t = put_uint16 (ID t) @ Name t @ concat (map encode_PokeDisplay (slots t))"

definition decode_TrainerRec :: "byte list \<Rightarrow> TrainerRec" where
  "decode_TrainerRec bs =
     \<lparr>ID = get_uint16 (bytes_at bs 0 2), Name = bytes_at bs 2 16,
      Poke1 = decode_PokeDisplay (bytes_at bs 18 14), Poke2 = decode_PokeDisplay (bytes_at bs 32 14),
      Poke3 = decode_PokeDisplay (bytes_at bs 46 14), Poke4 = decode_PokeDisplay (bytes_at bs 60 14),
      Poke5 = decode_PokeDisplay (bytes_at bs 74 14), Poke6 = decode_PokeDisplay (bytes_at bs 88 14)\<rparr>"

text \<open>The zero values \<open>PokeDisplay{}\<close> and \<open>TrainerRec{}\<close> (\<open>var trainer TrainerRec\<close>).\<close>

definition zero_PokeDisplay :: PokeDisplay where
  "zero_PokeDisplay = \<lparr>DisplayID = 0, DisplayName = replicate 12 0\<rparr>"

definition zero_TrainerRec :: TrainerRec where
  "zero_TrainerRec =
     \<lparr>ID = 0, Name = replicate 16 0,
      Poke1 = zero_PokeDisplay, Poke2 = zero_PokeDisplay, Poke3 = zero_PokeDisplay,
      Poke4 = zero_PokeDisplay, Poke5 = zero_PokeDisplay, Poke6 = zero_PokeDisplay\<rparr>"

text \<open>
  \<open>*poke_slots[idx] = d\<close>, where \<open>poke_slots\<close> points to \<open>Poke1\<close> .. \<open>Poke6\<close>. Both loops
  keep \<open>idx\<close> below 6.
\<close>

definition set_slot :: "nat \<Rightarrow> PokeDisplay \<Rightarrow> TrainerRec \<Rightarrow> TrainerRec" where
  "set_slot idx d t =
     (if idx = 0 then t\<lparr>Poke1 := d\<rparr>
      else if idx = 1 then t\<lparr>Poke2 := d\<rparr>
      else if idx = 2 then t\<lparr>Poke3 := d\<rparr>
      else if idx = 3 then t\<lparr>Poke4 := d\<rparr>
      else if idx = 4 then t\<lparr>Poke5 := d\<rparr>
      else if idx = 5 then t\<lparr>Poke6 := d\<rparr>
      else t)"

text \<open>\<open>copy(trainer.Name[:], name)\<close> into the zeroed array: at most 16 bytes are copied.\<close>

definition copy_name :: "byte list \<Rightarrow> byte list" where
  "copy_name name = take 16 name @ replicate (16 - length name) 0"

subsection \<open>Operations\<close>

text \<open>
  The offset of record \<open>id\<close> is \<open>int64(id-1) * size\<close>: the subtraction is done on the
  \<open>uint16\<close>, so it wraps to 65535 for \<open>id = 0\<close>.
\<close>

definition GetPokemon :: "byte list \<Rightarrow> 16 word \<Rightarrow> error + PokeRec" where
  "GetPokemon poke_file ident =
     (case seek_read poke_file (unat (ident - 1) * PokeRec_size) PokeRec_size of
        Inl err \<Rightarrow> Inl err
      | Inr bs \<Rightarrow> Inr (decode_PokeRec bs))"

definition GetPokeName :: "byte list \<Rightarrow> 16 word \<Rightarrow> error + byte list" where
  "GetPokeName poke_file ident =
     seek_read poke_file (unat (ident - 1) * PokeRec_size + 2) 12"

definition GetTrainer :: "byte list \<Rightarrow> 16 word \<Rightarrow> error + TrainerRec" where
  "GetTrainer trainer_file ident =
     (case seek_read trainer_file (unat (ident - 1) * TrainerRec_size) TrainerRec_size of
        Inl err \<Rightarrow> Inl err
      | Inr bs \<Rightarrow>
          (let trainer = decode_TrainerRec bs in
           if ID trainer = 0 then Inl (Errorf ''trainer ID not found'')
           else Inr trainer))"

text \<open>The loop of \<open>PostTrainer\<close>, lines 476 to 485.\<close>

function post_slots ::
  "byte list \<Rightarrow> 16 word list \<Rightarrow> nat \<Rightarrow> TrainerRec \<Rightarrow> error + TrainerRec" where
  "post_slots poke_file pokemon idx trainer =
     (if idx < length pokemon \<and> idx < 6 then
        (case GetPokeName poke_file (pokemon ! idx) of
           Inl err \<Rightarrow> Inl (Errorf ''pokemon ID not found'')
         | Inr name \<Rightarrow>
             post_slots poke_file pokemon (idx + 1)
               (set_slot idx \<lparr>DisplayID = pokemon ! idx, DisplayName = name\<rparr> trainer))
      else Inr trainer)"
  by pat_completeness auto
termination
  by (relation "measure (\<lambda>(poke_file, pokemon, idx, trainer). 6 - idx)") auto

text \<open>
  \<open>PostTrainer\<close> returns the new file together with \<open>(id, err)\<close>; with an error the id is 0.
\<close>

definition PostTrainer ::
  "byte list \<Rightarrow> byte list \<Rightarrow> byte list \<Rightarrow> 16 word list \<Rightarrow> byte list \<times> (error + 16 word)" where
  "PostTrainer trainer_file poke_file name pokemon =
     (let file_size = length trainer_file in
      if file_size mod TrainerRec_size \<noteq> 0
      then (trainer_file, Inl (Errorf ''file size is not a multiple of record size''))
      else
        (let next = file_size div TrainerRec_size + 1 in
         if next > 0xFFFF then (trainer_file, Inl (Errorf ''next ID out of range''))
         else
           (case post_slots poke_file pokemon 0
                   (zero_TrainerRec\<lparr>ID := word_of_nat next, Name := copy_name name\<rparr>) of
              Inl err \<Rightarrow> (trainer_file, Inl err)
            | Inr trainer \<Rightarrow>
                (seek_write trainer_file (length trainer_file) (encode_TrainerRec trainer),
                 Inr (ID trainer)))))"

text \<open>The loop of \<open>PutTrainer\<close>, lines 537 to 548.\<close>

function put_slots ::
  "byte list \<Rightarrow> 16 word list \<Rightarrow> nat \<Rightarrow> TrainerRec \<Rightarrow> error + TrainerRec" where
  "put_slots poke_file pokemon idx trainer =
     (if idx < 6 then
        (if idx < length pokemon then
           (case GetPokeName poke_file (pokemon ! idx) of
              Inl err \<Rightarrow> Inl (Errorf ''pokemon ID not found'')
            | Inr name \<Rightarrow>
                put_slots poke_file pokemon (idx + 1)
                  (set_slot idx \<lparr>DisplayID = pokemon ! idx, DisplayName = name\<rparr> trainer))
         else put_slots poke_file pokemon (idx + 1) (set_slot idx zero_PokeDisplay trainer))
      else Inr trainer)"
  by pat_completeness auto
termination
  by (relation "measure (\<lambda>(poke_file, pokemon, idx, trainer). 6 - idx)") auto

declare post_slots.simps [simp del] put_slots.simps [simp del]

text \<open>\<open>PutTrainer\<close> and \<open>DeleteTrainer\<close> return the new file and the error (\<open>None\<close> for nil).\<close>

definition PutTrainer ::
  "byte list \<Rightarrow> byte list \<Rightarrow> 16 word \<Rightarrow> 16 word list \<Rightarrow> byte list \<times> error option" where
  "PutTrainer trainer_file poke_file ident pokemon =
     (case GetTrainer trainer_file ident of
        Inl err \<Rightarrow> (trainer_file, Some (Errorf ''trainer ID not found''))
      | Inr old_data \<Rightarrow>
          if length trainer_file mod TrainerRec_size \<noteq> 0
          then (trainer_file, Some (Errorf ''file size is not a multiple of record size''))
          else
            (case put_slots poke_file pokemon 0
                    (zero_TrainerRec\<lparr>ID := ID old_data, Name := Name old_data\<rparr>) of
               Inl err \<Rightarrow> (trainer_file, Some err)
             | Inr trainer \<Rightarrow>
                 (seek_write trainer_file (unat (ident - 1) * TrainerRec_size)
                    (encode_TrainerRec trainer),
                  None)))"

definition DeleteTrainer :: "byte list \<Rightarrow> 16 word \<Rightarrow> byte list \<times> error option" where
  "DeleteTrainer trainer_file ident =
     (case GetTrainer trainer_file ident of
        Inl err \<Rightarrow> (trainer_file, Some err)
      | Inr _ \<Rightarrow>
          if length trainer_file mod TrainerRec_size \<noteq> 0
          then (trainer_file, Some (Errorf ''file size is not a multiple of record size''))
          else
            (seek_write trainer_file (unat (ident - 1) * TrainerRec_size)
               (encode_TrainerRec zero_TrainerRec),
             None))"

text \<open>The slot that \<open>PostTrainer\<close> and \<open>PutTrainer\<close> store for a species id that resolves.\<close>

definition resolved :: "byte list \<Rightarrow> 16 word \<Rightarrow> PokeDisplay" where
  "resolved poke_file ident =
     \<lparr>DisplayID = ident,
      DisplayName = (case GetPokeName poke_file ident of Inr name \<Rightarrow> name | Inl _ \<Rightarrow> [])\<rparr>"

definition resolves :: "byte list \<Rightarrow> 16 word \<Rightarrow> bool" where
  "resolves poke_file ident = (case GetPokeName poke_file ident of Inr _ \<Rightarrow> True | Inl _ \<Rightarrow> False)"

text \<open>The byte arrays of a record have the lengths that their Go types fix.\<close>

definition arrays_ok :: "TrainerRec \<Rightarrow> bool" where
  "arrays_ok t \<longleftrightarrow> length (Name t) = 16 \<and> list_all (\<lambda>d. length (DisplayName d) = 12) (slots t)"

text \<open>
  Small files for exercising the theorems: a species file of one record, a trainer file of one
  live record (id 1, no name, no species) and a trainer file of 65535 records.
\<close>

definition one_species_file :: "byte list" where
  "one_species_file = replicate 96 0"

definition one_trainer_file :: "byte list" where
  "one_trainer_file = encode_TrainerRec (zero_TrainerRec\<lparr>ID := 1\<rparr>)"

definition full_trainer_file :: "byte list" where
  "full_trainer_file = replicate (65535 * 102) 0"

section \<open>Framed transport (record.go)\<close>

text \<open>
  A connection, seen from one end: the bytes that the peer has sent and that are not read
  yet, the bytes written so far, and a schedule that says what each coming call of
  \<open>Read\<close> or \<open>Write\<close> on the descriptor does: fail, or move at most so many bytes. A call
  with a non-empty buffer moves at least one byte unless it fails (\<open>os.File\<close> returns an
  error with a count of 0 otherwise); with the schedule used up, calls move all they can.
  The peer closing the stream is \<open>inbound = []\<close>: \<open>Read\<close> then returns \<open>io.EOF\<close>.
\<close>

datatype io_step = Xfer nat | Fail

record conn =
  inbound :: "byte list"
  outbound :: "byte list"
  sched :: "io_step list"

definition chunk :: "io_step list \<Rightarrow> nat \<Rightarrow> nat" where
  "chunk steps limit = (case steps of Xfer k # _ \<Rightarrow> max 1 (min k limit) | _ \<Rightarrow> limit)"

text \<open>\<open>fp.Read(buf)\<close> with \<open>len(buf) = n > 0\<close>: the bytes read and the connection after.\<close>

definition fp_Read :: "conn \<Rightarrow> nat \<Rightarrow> (error + byte list) \<times> conn" where
  "fp_Read c n =
     (case sched c of
        Fail # rest \<Rightarrow> (Inl ErrIO, c\<lparr>sched := rest\<rparr>)
      | _ \<Rightarrow>
          if inbound c = [] then (Inl EOF, c\<lparr>sched := tl (sched c)\<rparr>)
          else
            (let m = chunk (sched c) (min n (length (inbound c))) in
             (Inr (take m (inbound c)),
              c\<lparr>inbound := drop m (inbound c), sched := tl (sched c)\<rparr>)))"

text \<open>\<open>fp.Write(buf)\<close> with a non-empty \<open>buf\<close>: the number of bytes written.\<close>

definition fp_Write :: "conn \<Rightarrow> byte list \<Rightarrow> (error + nat) \<times> conn" where
  "fp_Write c buf =
     (case sched c of
        Fail # rest \<Rightarrow> (Inl ErrIO, c\<lparr>sched := rest\<rparr>)
      | _ \<Rightarrow>
          (let m = chunk (sched c) (length buf) in
           (Inr m, c\<lparr>outbound := outbound c @ take m buf, sched := tl (sched c)\<rparr>)))"

text \<open>\<open>binary.BigEndian\<close> on a \<open>uint32\<close>: the high byte first.\<close>

definition put_uint32_be :: "32 word \<Rightarrow> byte list" where
  "put_uint32_be w = [ucast (drop_bit 24 w), ucast (drop_bit 16 w), ucast (drop_bit 8 w), ucast w]"

definition get_uint32_be :: "byte list \<Rightarrow> 32 word" where
  "get_uint32_be bs =
     push_bit 24 (ucast (bs ! 0)) OR push_bit 16 (ucast (bs ! 1))
       OR push_bit 8 (ucast (bs ! 2)) OR ucast (bs ! 3)"

text \<open>The loop of \<open>ReallyWrite\<close>, lines 647 to 653 (\<open>total_n\<close> is the source's \<open>total\<close>).\<close>

function write_loop :: "conn \<Rightarrow> byte list \<Rightarrow> nat \<Rightarrow> error option \<times> conn" where
  "write_loop c packet total_n =
     (if total_n < length packet then
        (case fp_Write c (drop total_n packet) of
           (Inl err, c') \<Rightarrow> (Some err, c')
         | (Inr bytes_written, c') \<Rightarrow> write_loop c' packet (total_n + bytes_written))
      else (None, c))"
  by pat_completeness auto
termination
proof (relation "measure (\<lambda>(c, packet, total_n). length packet - total_n)", goal_cases)
  case 1
  show ?case by simp
next
  case (2 c packet total_n x y bytes_written)
  then have "0 < bytes_written"
    by (auto simp: fp_Write_def chunk_def Let_def split: list.splits io_step.splits)
  with 2(1) show ?case by simp
qed

text \<open>
  \<open>ReallyWrite\<close>: the length of the message is converted to \<open>uint32\<close> (the conversion
  keeps the low 32 bits) and written before the message.
\<close>

definition ReallyWrite :: "conn \<Rightarrow> byte list \<Rightarrow> error option \<times> conn" where
  "ReallyWrite fp msg =
     (let len_buf = put_uint32_be (word_of_nat (length msg));
          packet = len_buf @ msg
      in write_loop fp packet 0)"

text \<open>
  The two loops of \<open>ReallyRead\<close>, lines 667 to 673 and 678 to 684: \<open>buf\<close> holds the
  bytes read so far, \<open>total_n\<close> (the source's \<open>total\<close>) of the \<open>want\<close> bytes wanted,
  and each call reads into the rest of the buffer.
\<close>

function read_loop :: "conn \<Rightarrow> nat \<Rightarrow> nat \<Rightarrow> byte list \<Rightarrow> (error + byte list) \<times> conn" where
  "read_loop c want total_n buf =
     (if total_n < want then
        (case fp_Read c (want - total_n) of
           (Inl err, c') \<Rightarrow> (Inl err, c')
         | (Inr bytes_read, c') \<Rightarrow>
             read_loop c' want (total_n + length bytes_read) (buf @ bytes_read))
      else (Inr buf, c))"
  by pat_completeness auto
termination
proof (relation "measure (\<lambda>(c, want, total_n, buf). want - total_n)", goal_cases)
  case 1
  show ?case by simp
next
  case (2 c want total_n buf x y bytes_read)
  then have "0 < length bytes_read"
    by (auto simp: fp_Read_def chunk_def Let_def split: list.splits io_step.splits if_splits)
  with 2(1) show ?case by (cases bytes_read) auto
qed

declare write_loop.simps [simp del] read_loop.simps [simp del]

text \<open>\<open>ReallyRead\<close> returns the message (the empty string with an error).\<close>

definition ReallyRead :: "conn \<Rightarrow> (error + byte list) \<times> conn" where
  "ReallyRead fp =
     (case read_loop fp 4 0 [] of
        (Inl err, fp') \<Rightarrow> (Inl err, fp')
      | (Inr len_buf, fp') \<Rightarrow>
          read_loop fp' (unat (get_uint32_be len_buf)) 0 [])"

text \<open>A message of \<open>2^32\<close> zero bytes and a connection with nothing scheduled.\<close>

definition huge_message :: "byte list" where
  "huge_message = replicate 4294967296 0"

definition idle_conn :: conn where
  "idle_conn = \<lparr>inbound = [], outbound = [], sched = []\<rparr>"

text \<open>
  A sender whose first two writes are cut short and a receiver whose reads arrive in
  pieces; the receiver's stream holds the frame of the two-byte message "hi" and one
  byte of the next frame.
\<close>

definition chunked_sender :: conn where
  "chunked_sender = \<lparr>inbound = [], outbound = [], sched = [Xfer 1, Xfer 3]\<rparr>"

definition chunked_receiver :: conn where
  "chunked_receiver =
     \<lparr>inbound = [0, 0, 0, 2, 104, 105, 7], outbound = [], sched = [Xfer 3, Xfer 0, Xfer 1]\<rparr>"

section \<open>Request parsing and dispatch (record.go, server.go)\<close>

text \<open>
  A request is the text of one frame. Each function below is \<open>FindStringSubmatch\<close> of one
  of the compiled patterns: the list of the whole match and the captures, or the empty
  list (\<open>nil\<close>) when the request does not match; \<open>MatchString\<close> is "the list is not
  empty". In Go's syntax \<open>\d\<close> is an ASCII digit, \<open>\S\<close> is anything but tab, line feed,
  form feed, carriage return and space, and \<open>^\<close>, \<open>$\<close> match at the two ends of the text
  only. A capture that took no part in the match is the empty string.
\<close>

definition is_digit :: "char \<Rightarrow> bool" where
  "is_digit c \<longleftrightarrow> c \<in> set ''0123456789''"

definition is_space :: "char \<Rightarrow> bool" where
  "is_space c \<longleftrightarrow> c \<in> set [CHR 0x09, CHR 0x0A, CHR 0x0C, CHR 0x0D, CHR '' '']"

definition strip_prefix :: "string \<Rightarrow> string \<Rightarrow> string option" where
  "strip_prefix p s = (if take (length p) s = p then Some (drop (length p) s) else None)"

text \<open>\<open>[1-9][0-9]*\<close> and \<open>\d+\<close>, each up to the end of the text.\<close>

definition positive_decimal :: "string \<Rightarrow> bool" where
  "positive_decimal s =
     (case s of [] \<Rightarrow> False | c # cs \<Rightarrow> c \<in> set ''123456789'' \<and> list_all is_digit cs)"

definition digits :: "string \<Rightarrow> bool" where
  "digits s \<longleftrightarrow> s \<noteq> [] \<and> list_all is_digit s"

text \<open>
  The tail \<open>(?: (\d+))?\<close> repeated \<open>n\<close> times and then \<open>$\<close>. Each group is tried
  first, with the longest run of digits (a shorter run would leave a digit where only a
  space or the end can follow), and skipped, with an empty capture, when the match
  cannot be completed that way.
\<close>

fun optional_ids :: "nat \<Rightarrow> string \<Rightarrow> string list option" where
  "optional_ids 0 s = (if s = [] then Some [] else None)"
| "optional_ids (Suc n) s =
     (case (case s of
              [] \<Rightarrow> None
            | c # t \<Rightarrow>
                if c = CHR '' '' \<and> takeWhile is_digit t \<noteq> []
                then map_option ((#) (takeWhile is_digit t))
                       (optional_ids n (dropWhile is_digit t))
                else None) of
        Some captures \<Rightarrow> Some captures
      | None \<Rightarrow> map_option ((#) []) (optional_ids n s))"

text \<open>\<open>^REQ_POKE_ID ([1-9][0-9]*)$\<close>\<close>

definition ReqGetPokeID :: "string \<Rightarrow> string list" where
  "ReqGetPokeID req =
     (case strip_prefix ''REQ_POKE_ID '' req of
        None \<Rightarrow> []
      | Some arg \<Rightarrow> if positive_decimal arg then [req, arg] else [])"

text \<open>\<open>^REQ_TRAINER_ID ([1-9][0-9]*)$\<close>\<close>

definition ReqGetTrainerID :: "string \<Rightarrow> string list" where
  "ReqGetTrainerID req =
     (case strip_prefix ''REQ_TRAINER_ID '' req of
        None \<Rightarrow> []
      | Some arg \<Rightarrow> if positive_decimal arg then [req, arg] else [])"

text \<open>\<open>^REQ_TRAINER_ALL$\<close>\<close>

definition ReqGetTrainerAll :: "string \<Rightarrow> string list" where
  "ReqGetTrainerAll req = (if req = ''REQ_TRAINER_ALL'' then [req] else [])"

text \<open>\<open>^POST_TRAINER (\S+)(?: (\d+))?(?: (\d+))?(?: (\d+))?(?: (\d+))?(?: (\d+))?(?: (\d+))?$\<close>\<close>

definition ReqPostTrainer :: "string \<Rightarrow> string list" where
  "ReqPostTrainer req =
     (case strip_prefix ''POST_TRAINER '' req of
        None \<Rightarrow> []
      | Some arg \<Rightarrow>
          (let name = takeWhile (\<lambda>c. \<not> is_space c) arg in
           if name = [] then []
           else
             (case optional_ids 6 (dropWhile (\<lambda>c. \<not> is_space c) arg) of
                None \<Rightarrow> []
              | Some ids \<Rightarrow> req # name # ids)))"

text \<open>\<open>^PUT_TRAINER (\d+)(?: (\d+))?(?: (\d+))?(?: (\d+))?(?: (\d+))?(?: (\d+))?(?: (\d+))?$\<close>\<close>

definition ReqPutTrainer :: "string \<Rightarrow> string list" where
  "ReqPutTrainer req =
     (case strip_prefix ''PUT_TRAINER '' req of
        None \<Rightarrow> []
      | Some arg \<Rightarrow>
          (let ident = takeWhile is_digit arg in
           if ident = [] then []
           else
             (case optional_ids 6 (dropWhile is_digit arg) of
                None \<Rightarrow> []
              | Some ids \<Rightarrow> req # ident # ids)))"

text \<open>\<open>^DEL_TRAINER (\d+)$\<close>\<close>

definition ReqDelTrainer :: "string \<Rightarrow> string list" where
  "ReqDelTrainer req =
     (case strip_prefix ''DEL_TRAINER '' req of
        None \<Rightarrow> []
      | Some arg \<Rightarrow> if digits arg then [req, arg] else [])"

text \<open>\<open>^REQ_LOG_FILE (\d+)$\<close>\<close>

definition ReqGetLogN :: "string \<Rightarrow> string list" where
  "ReqGetLogN req =
     (case strip_prefix ''REQ_LOG_FILE '' req of
        None \<Rightarrow> []
      | Some arg \<Rightarrow> if digits arg then [req, arg] else [])"

text \<open>
  \<open>strconv.Atoi\<close> on a capture of \<open>\d+\<close>: the value, or the largest \<open>int\<close> together
  with a range error when the digits do not fit 64 bits. (The model is used on digit
  strings only.)
\<close>

definition decimal_value :: "string \<Rightarrow> int" where
  "decimal_value s = foldl (\<lambda>acc c. 10 * acc + (of_char c - 48)) 0 s"

definition Atoi :: "string \<Rightarrow> int \<times> error option" where
  "Atoi s =
     (if decimal_value s \<le> 9223372036854775807 then (decimal_value s, None)
      else (9223372036854775807, Some ErrRange))"

text \<open>
  The frames that a handler writes with \<open>ReallyWrite\<close>, in order: a status token, the
  decimal text of a number (\<open>strconv.Itoa\<close>), or the JSON text of a record
  (\<open>json.Marshal\<close>, which does not fail on these structs).
\<close>

datatype reply =
    Token string
  | Decimal nat
  | PokeJSON PokeRec
  | TrainerJSON TrainerRec

text \<open>The bytes of a Go string.\<close>

definition bytes_of :: "string \<Rightarrow> byte list" where
  "bytes_of s = map of_char s"

text \<open>\<open>process_req_get_poke\<close>: the frames written to the client.\<close>

definition process_req_get_poke :: "string \<Rightarrow> byte list \<Rightarrow> reply list" where
  "process_req_get_poke req poke_file =
     (let captures = ReqGetPokeID req in
      if length captures > 0 then
        (case GetPokemon poke_file (word_of_int (fst (Atoi (captures ! 1)))) of
           Inl err \<Rightarrow> if err = EOF then [Token ''OUT_OF_BOUNDS''] else [Token ''SERVER_ERROR'']
         | Inr rec \<Rightarrow> [PokeJSON rec])
      else [])"

text \<open>
  The loop of \<open>process_req_post_trainer\<close> and \<open>process_req_put_trainer\<close> over the
  captures after the first: it stops at the first empty capture, and an \<open>Atoi\<close> error ends
  the handler with \<open>SERVER_ERROR\<close>.
\<close>

fun collect_ids :: "string list \<Rightarrow> 16 word list \<Rightarrow> error + 16 word list" where
  "collect_ids [] pokemon = Inr pokemon"
| "collect_ids (capture # rest) pokemon =
     (if capture = [] then Inr pokemon
      else
        (case Atoi capture of
           (num, Some err) \<Rightarrow> Inl err
         | (num, None) \<Rightarrow> collect_ids rest (pokemon @ [word_of_int num])))"

text \<open>
  \<open>process_req_post_trainer\<close>: the frames written to the client and the trainer file
  after the request.
\<close>

definition process_req_post_trainer ::
  "string \<Rightarrow> byte list \<Rightarrow> byte list \<Rightarrow> reply list \<times> byte list" where
  "process_req_post_trainer req trainer_file poke_file =
     (let captures = ReqPostTrainer req in
      if length captures > 0 then
        (let name = captures ! 1 in
         if length name > 15 then ([Token ''LONG_NAME''], trainer_file)
         else
           (case collect_ids (drop 2 captures) [] of
              Inl err \<Rightarrow> ([Token ''SERVER_ERROR''], trainer_file)
            | Inr pokemon \<Rightarrow>
                if length pokemon = 0 then ([], trainer_file)
                else
                  (case PostTrainer trainer_file poke_file (bytes_of name) pokemon of
                     (trainer_file', Inl err) \<Rightarrow> ([Token ''BAD_POST''], trainer_file')
                   | (trainer_file', Inr ident) \<Rightarrow>
                       (if ident \<noteq> 0 then [Decimal (unat ident)] else [], trainer_file'))))
      else ([], trainer_file))"

text \<open>\<open>process_req_put_trainer\<close>; the error text follows \<open>BAD_PUT.\<close> in the reply.\<close>

definition process_req_put_trainer ::
  "string \<Rightarrow> byte list \<Rightarrow> byte list \<Rightarrow> reply list \<times> byte list" where
  "process_req_put_trainer req trainer_file poke_file =
     (let captures = ReqPutTrainer req in
      if length captures > 0 then
        (case Atoi (captures ! 1) of
           (num, Some err) \<Rightarrow> ([Token ''SERVER_ERROR''], trainer_file)
         | (num, None) \<Rightarrow>
             (case collect_ids (drop 2 captures) [] of
                Inl err \<Rightarrow> ([Token ''SERVER_ERROR''], trainer_file)
              | Inr pokemon \<Rightarrow>
                  (case PutTrainer trainer_file poke_file (word_of_int num) pokemon of
                     (trainer_file', Some err) \<Rightarrow>
                       ([Token (''BAD_PUT.'' @ Error err)], trainer_file')
                   | (trainer_file', None) \<Rightarrow>
                       (if (word_of_int num :: 16 word) \<noteq> 0 then [Token ''GOOD_PUT''] else [],
                        trainer_file'))))
      else ([], trainer_file))"

text \<open>
  The \<open>switch\<close> of \<open>handle_client\<close>: the first case that matches decides which handler
  runs; \<open>Reply_invalid\<close> is the \<open>default\<close> case, which writes \<open>CLIENT_REQ_INVALID\<close>.
\<close>

datatype dispatch =
    Exit_session
  | Run_get_poke
  | Run_get_trainer
  | Run_get_trainer_all
  | Run_post_trainer
  | Run_put_trainer
  | Run_delete_trainer
  | Run_get_log
  | Reply_invalid

definition handle_client_switch :: "string \<Rightarrow> dispatch" where
  "handle_client_switch req =
     (if req = ''EXIT'' then Exit_session
      else if ReqGetPokeID req \<noteq> [] then Run_get_poke
      else if ReqGetTrainerID req \<noteq> [] then Run_get_trainer
      else if ReqGetTrainerAll req \<noteq> [] then Run_get_trainer_all
      else if ReqPostTrainer req \<noteq> [] then Run_post_trainer
      else if ReqPutTrainer req \<noteq> [] then Run_put_trainer
      else if ReqDelTrainer req \<noteq> [] then Run_delete_trainer
      else if ReqGetLogN req \<noteq> [] then Run_get_log
      else Reply_invalid)"

text \<open>A species file cut off in the middle of its first record.\<close>

definition truncated_species_file :: "byte list" where
  "truncated_species_file = replicate 50 0"

section \<open>Properties of the lock manager\<close>

lemma on_record_lock_of:
  "on_record i f m = Some m' \<Longrightarrow>
   (if i = ident then f (lock_of m ident) else Some (lock_of m ident)) = Some (lock_of m' ident)"
  by (auto simp: on_record_def GetRecordLock_def lock_of_def split: option.splits if_splits)

lemma step_local:
  assumes "step e m = Some m'"
  shows "local_step ident e (lock_of m ident) = Some (lock_of m' ident)"
proof (cases e)
  case (RLockEnter i)
  with assms show ?thesis using on_record_lock_of[of i RLockRecord_section m m' ident] by simp
next
  case (RUnlockLeave i)
  with assms show ?thesis
    using on_record_lock_of[of i "\<lambda>l. Some (RUnlockRecord_section l)" m m' ident] by simp
next
  case (WLockEnqueue i w)
  with assms show ?thesis using on_record_lock_of[of i "WLockRecord_enqueue w" m m' ident] by simp
next
  case (WLockEnter i w)
  with assms show ?thesis using on_record_lock_of[of i "WLockRecord_acquire w" m m' ident] by simp
next
  case (WUnlockLeave i)
  with assms show ?thesis
    using on_record_lock_of[of i "\<lambda>l. Some (WUnlockRecord_section l)" m m' ident] by simp
qed (use assms in \<open>auto simp: lock_of_def split: if_splits\<close>)

lemma local_counters_ok: "local_step ident e l = Some l' \<Longrightarrow> counters_ok l \<Longrightarrow> counters_ok l'"
  by (cases e) (auto simp: counters_ok_def RLockRecord_section_def RUnlockRecord_section_def
      WLockRecord_enqueue_def WLockRecord_acquire_def WUnlockRecord_section_def split: if_splits list.splits)

lemma local_exclusive: "local_step ident e l = Some l' \<Longrightarrow> exclusive l \<Longrightarrow> exclusive l'"
  by (cases e) (auto simp: exclusive_def RLockRecord_section_def RUnlockRecord_section_def
      WLockRecord_enqueue_def WLockRecord_acquire_def WUnlockRecord_section_def split: if_splits list.splits)

lemma local_queue: "local_step ident e l = Some l' \<Longrightarrow>
   WrQueue l @ enqueued ident [e] = granted ident [e] @ WrQueue l'"
  by (cases e) (auto simp: RLockRecord_section_def RUnlockRecord_section_def
      WLockRecord_enqueue_def WLockRecord_acquire_def WUnlockRecord_section_def split: if_splits list.splits)

lemma enqueued_Cons: "enqueued ident (e # es) = enqueued ident [e] @ enqueued ident es"
  by (cases e) auto
lemma granted_Cons: "granted ident (e # es) = granted ident [e] @ granted ident es"
  by (cases e) auto

lemma run_exclusive: "run tr m = Some m' \<Longrightarrow> exclusive (lock_of m ident) \<Longrightarrow> exclusive (lock_of m' ident)"
proof (induction tr arbitrary: m)
  case Nil then show ?case by simp
next
  case (Cons e es)
  then obtain m1 where s: "step e m = Some m1" and r: "run es m1 = Some m'" by (auto split: option.splits)
  from step_local[OF s, of ident] Cons.prems(2) have "exclusive (lock_of m1 ident)" by (rule local_exclusive)
  with Cons.IH[OF r] show ?case .
qed

lemma run_queue: "run tr m = Some m' \<Longrightarrow>
   WrQueue (lock_of m ident) @ enqueued ident tr = granted ident tr @ WrQueue (lock_of m' ident)"
proof (induction tr arbitrary: m)
  case Nil then show ?case by simp
next
  case (Cons e es)
  then obtain m1 where s: "step e m = Some m1" and r: "run es m1 = Some m'" by (auto split: option.splits)
  have a: "WrQueue (lock_of m ident) @ enqueued ident [e] = granted ident [e] @ WrQueue (lock_of m1 ident)"
    using step_local[OF s, of ident] by (rule local_queue)
  have "WrQueue (lock_of m ident) @ enqueued ident (e # es) = (WrQueue (lock_of m ident) @ enqueued ident [e]) @ enqueued ident es"
    using enqueued_Cons[of ident e es] by simp
  also have "\<dots> = granted ident [e] @ (WrQueue (lock_of m1 ident) @ enqueued ident es)" using a by simp
  also have "\<dots> = granted ident [e] @ granted ident es @ WrQueue (lock_of m' ident)" using Cons.IH[OF r] by simp
  finally show ?case using granted_Cons[of ident e es] by simp
qed

lemma run_append: "run (a @ b) m = (case run a m of None \<Rightarrow> None | Some x \<Rightarrow> run b x)"
  by (induction a arbitrary: m) (auto split: option.splits)

lemma local_writing_kept: "local_step ident e l = Some l' \<Longrightarrow> NumWriting l = 1 \<Longrightarrow> e \<noteq> WUnlockLeave ident \<Longrightarrow> NumWriting l' = 1"
  by (cases e) (auto simp: RLockRecord_section_def RUnlockRecord_section_def
      WLockRecord_enqueue_def WLockRecord_acquire_def WUnlockRecord_section_def split: if_splits list.splits)

lemma run_writing_released: "run tr m = Some m' \<Longrightarrow> NumWriting (lock_of m ident) = 1 \<Longrightarrow>
   NumWriting (lock_of m' ident) \<noteq> 1 \<Longrightarrow> WUnlockLeave ident \<in> set tr"
proof (induction tr arbitrary: m)
  case Nil then show ?case by simp
next
  case (Cons e es)
  then obtain m1 where s: "step e m = Some m1" and r: "run es m1 = Some m'" by (auto split: option.splits)
  show ?case
  proof (cases "e = WUnlockLeave ident")
    case True then show ?thesis by simp
  next
    case False
    have "NumWriting (lock_of m1 ident) = 1"
      using local_writing_kept[OF step_local[OF s, of ident] Cons.prems(2) False] .
    from Cons.IH[OF r this Cons.prems(3)] show ?thesis by simp
  qed
qed

lemma acquire_writing: "WLockRecord_acquire w l = Some l' \<Longrightarrow> NumWriting l' = 1"
  by (auto simp: WLockRecord_acquire_def split: list.splits if_splits)

lemma step_enter_writing: "step (WLockEnter ident w) m = Some m' \<Longrightarrow> NumWriting (lock_of m' ident) = 1"
  using step_local[of "WLockEnter ident w" m m' ident] by (simp add: acquire_writing)

lemma step_reader_needs: "step (RLockEnter ident) m = Some m' \<Longrightarrow>
   WrQueue (lock_of m ident) = [] \<and> NumWriting (lock_of m ident) \<noteq> 1"
  using step_local[of "RLockEnter ident" m m' ident]
  by (auto simp: RLockRecord_section_def split: if_splits)

lemma grant_then_release:
  assumes r: "run tr m = Some m'" and i: "i < length tr" and e: "tr ! i = WLockEnter ident w"
    and fin: "NumWriting (lock_of m' ident) \<noteq> 1"
  shows "\<exists>j. i < j \<and> j < length tr \<and> tr ! j = WUnlockLeave ident"
proof -
  have tr: "tr = take i tr @ (tr ! i # drop (Suc i) tr)" using i by (simp add: id_take_nth_drop)
  obtain m1 where r1: "run (take i tr) m = Some m1" and r2: "run (tr ! i # drop (Suc i) tr) m1 = Some m'"
    using r run_append[of "take i tr" "tr ! i # drop (Suc i) tr" m] tr by (auto split: option.splits)
  obtain m2 where s: "step (WLockEnter ident w) m1 = Some m2" and r3: "run (drop (Suc i) tr) m2 = Some m'"
    using r2 e by (auto split: option.splits)
  have "WUnlockLeave ident \<in> set (drop (Suc i) tr)"
    using run_writing_released[OF r3 step_enter_writing[OF s] fin] .
  then obtain k where k: "k < length (drop (Suc i) tr)" "drop (Suc i) tr ! k = WUnlockLeave ident"
    by (auto simp: in_set_conv_nth)
  then have "Suc i + k < length tr \<and> tr ! (Suc i + k) = WUnlockLeave ident" using i by auto
  then show ?thesis by (intro exI[of _ "Suc i + k"]) auto
qed


text \<open>
  Claim C1. For every trainer id, in every state reached from a new manager by any
  interleaving of the atomic steps of \<open>RLockRecord\<close>, \<open>RUnlockRecord\<close>, \<open>WLockRecord\<close> and
  \<open>WUnlockRecord\<close> (matched or not), the id's \<open>RecordLock\<close> satisfies
  \<open>NumWriting = 1 \<longrightarrow> NumReading = 0\<close>: no reader is counted in while a writer holds the record.
\<close>

theorem writer_excludes_readers:
  assumes "run tr NewGlobalManager = Some m" and "TrainerRecLocks m ident = Some l"
  shows "NumWriting l = 1 \<longrightarrow> NumReading l = 0"
proof -
  have "exclusive (lock_of NewGlobalManager ident)"
    by (simp add: exclusive_def lock_of_def NewGlobalManager_def NewRecordLock_def)
  with assms(1) have "exclusive (lock_of m ident)" by (rule run_exclusive)
  with assms(2) show ?thesis by (simp add: exclusive_def lock_of_def)
qed

theorem writer_excludes_readers_witness:
  "run write_after_read_trace NewGlobalManager =
     Some \<lparr>TrainerRecLocks = [7 \<mapsto> \<lparr>NumReading = 0, NumWriting = 1, WrQueue = []\<rparr>],
           GlobalLock = \<lparr>readers = 2, writer = False\<rparr>\<rparr>
   \<and> NumWriting \<lparr>NumReading = 0, NumWriting = 1, WrQueue = []\<rparr> = 1
   \<and> NumReading \<lparr>NumReading = 0, NumWriting = 1, WrQueue = []\<rparr> = 0"
proof -
  have r: "run write_after_read_trace NewGlobalManager =
     Some \<lparr>TrainerRecLocks = [7 \<mapsto> \<lparr>NumReading = 0, NumWriting = 1, WrQueue = []\<rparr>],
           GlobalLock = \<lparr>readers = 2, writer = False\<rparr>\<rparr>"
    by (simp add: write_after_read_trace_def NewGlobalManager_def on_record_def GetRecordLock_def
        NewRecordLock_def RLockRecord_section_def RUnlockRecord_section_def
        WLockRecord_enqueue_def WLockRecord_acquire_def)
  show ?thesis
    using r writer_excludes_readers [OF r, of 7 "\<lparr>NumReading = 0, NumWriting = 1, WrQueue = []\<rparr>"]
    by simp
qed

text \<open>
  Claim C10. Every atomic step of the lock manager preserves \<open>0 \<le> NumReading\<close> and
  \<open>NumWriting \<in> {0, 1}\<close> on every \<open>RecordLock\<close> of the table. The critical section of
  \<open>RUnlockRecord\<close> can always be taken, and when \<open>NumReading\<close> is already 0 (an
  unmatched unlock) it leaves \<open>NumReading\<close> at 0.
\<close>

theorem lock_counters_preserved:
  assumes "step e m = Some m'"
    and "\<forall>i l. TrainerRecLocks m i = Some l \<longrightarrow> counters_ok l"
  shows "(\<forall>i l. TrainerRecLocks m' i = Some l \<longrightarrow> counters_ok l)
       \<and> (\<exists>m''. step (RUnlockLeave ident) m = Some m''
             \<and> (NumReading (lock_of m ident) = 0 \<longrightarrow> NumReading (lock_of m'' ident) = 0))"
proof -
  have ok: "counters_ok (lock_of m i)" for i
    using assms(2) by (cases "TrainerRecLocks m i") (auto simp: lock_of_def counters_ok_def NewRecordLock_def)
  have ok': "counters_ok (lock_of m' i)" for i
    using step_local[OF assms(1), of i] ok[of i] by (rule local_counters_ok)
  have a: "\<forall>i l. TrainerRecLocks m' i = Some l \<longrightarrow> counters_ok l"
  proof (intro allI impI)
    fix i l assume "TrainerRecLocks m' i = Some l"
    with ok'[of i] show "counters_ok l" by (simp add: lock_of_def)
  qed
  have "step (RUnlockLeave ident) m \<noteq> None"
    by (simp add: on_record_def GetRecordLock_def split: option.splits prod.splits)
  then obtain m'' where s: "step (RUnlockLeave ident) m = Some m''" by blast
  have "NumReading (lock_of m ident) = 0 \<longrightarrow> NumReading (lock_of m'' ident) = 0"
    using step_local[OF s, of ident] by (auto simp: RUnlockRecord_section_def)
  with a s show ?thesis by blast
qed

theorem lock_counters_preserved_witness:
  "step (RUnlockLeave 3) NewGlobalManager =
     Some \<lparr>TrainerRecLocks = [3 \<mapsto> \<lparr>NumReading = 0, NumWriting = 0, WrQueue = []\<rparr>],
           GlobalLock = \<lparr>readers = 0, writer = False\<rparr>\<rparr>
   \<and> counters_ok \<lparr>NumReading = 0, NumWriting = 0, WrQueue = []\<rparr>
   \<and> NumReading (lock_of NewGlobalManager 3) = 0
   \<and> NumReading (lock_of \<lparr>TrainerRecLocks = [3 \<mapsto> \<lparr>NumReading = 0, NumWriting = 0, WrQueue = []\<rparr>],
           GlobalLock = \<lparr>readers = 0, writer = False\<rparr>\<rparr> 3) = 0"
proof -
  have s: "step (RUnlockLeave 3) NewGlobalManager =
     Some \<lparr>TrainerRecLocks = [3 \<mapsto> \<lparr>NumReading = 0, NumWriting = 0, WrQueue = []\<rparr>],
           GlobalLock = \<lparr>readers = 0, writer = False\<rparr>\<rparr>"
    by (simp add: NewGlobalManager_def on_record_def GetRecordLock_def NewRecordLock_def
        RUnlockRecord_section_def)
  have h: "\<forall>i l. TrainerRecLocks NewGlobalManager i = Some l \<longrightarrow> counters_ok l"
    by (simp add: NewGlobalManager_def)
  show ?thesis
    using s lock_counters_preserved [OF s h, of 3]
    by (simp add: lock_of_def NewGlobalManager_def NewRecordLock_def counters_ok_def)
qed

text \<open>
  Claim C2. Let a reader of \<open>ident\<close> arrive in the state \<open>m1\<close> reached by the
  interleaving \<open>before\<close>, and be counted in by \<open>RLockRecord\<close> after the further
  interleaving \<open>during\<close>. Then
  \<^item> writers are granted in the order of their markers in \<open>WrQueue\<close>: the markers enqueued
    so far are the markers granted so far followed by the queue;
  \<^item> the writers granted while the reader waited are, in this order, the writers that were
    queued at its arrival followed by every writer enqueued while it waited: all of them
    acquire before the reader does;
  \<^item> every grant made while the reader waited is followed, before the reader is counted
    in, by a \<open>WUnlockRecord\<close> on the id, and so is the grant of a writer that was active
    at the arrival.
\<close>

theorem writers_fifo_readers_wait:
  assumes before: "run before NewGlobalManager = Some m1"
    and during: "run during m1 = Some m2"
    and enter: "step (RLockEnter ident) m2 = Some m3"
  shows "enqueued ident before = granted ident before @ WrQueue (lock_of m1 ident)
       \<and> granted ident during = WrQueue (lock_of m1 ident) @ enqueued ident during
       \<and> (\<forall>i<length during. \<forall>w. during ! i = WLockEnter ident w \<longrightarrow>
            (\<exists>j. i < j \<and> j < length during \<and> during ! j = WUnlockLeave ident))
       \<and> (NumWriting (lock_of m1 ident) = 1 \<longrightarrow> WUnlockLeave ident \<in> set during)"
proof -
  have idle: "WrQueue (lock_of m2 ident) = []" and free: "NumWriting (lock_of m2 ident) \<noteq> 1"
    using step_reader_needs[OF enter] by simp_all
  have a: "enqueued ident before = granted ident before @ WrQueue (lock_of m1 ident)"
    using run_queue[OF before, of ident] by (simp add: lock_of_def NewGlobalManager_def NewRecordLock_def)
  have b: "granted ident during = WrQueue (lock_of m1 ident) @ enqueued ident during"
    using run_queue[OF during, of ident] idle by simp
  have c: "\<forall>i<length during. \<forall>w. during ! i = WLockEnter ident w \<longrightarrow>
            (\<exists>j. i < j \<and> j < length during \<and> during ! j = WUnlockLeave ident)"
    using grant_then_release[OF during _ _ free] by blast
  have d: "NumWriting (lock_of m1 ident) = 1 \<longrightarrow> WUnlockLeave ident \<in> set during"
    using run_writing_released[OF during _ free] by blast
  from a b c d show ?thesis by blast
qed


theorem writers_fifo_readers_wait_witness:
  "run arrival_trace NewGlobalManager =
     Some \<lparr>TrainerRecLocks = [1 \<mapsto> \<lparr>NumReading = 0, NumWriting = 1, WrQueue = [1]\<rparr>],
           GlobalLock = \<lparr>readers = 3, writer = False\<rparr>\<rparr>
   \<and> run waiting_trace \<lparr>TrainerRecLocks = [1 \<mapsto> \<lparr>NumReading = 0, NumWriting = 1, WrQueue = [1]\<rparr>],
           GlobalLock = \<lparr>readers = 3, writer = False\<rparr>\<rparr> =
     Some \<lparr>TrainerRecLocks = [1 \<mapsto> \<lparr>NumReading = 0, NumWriting = 0, WrQueue = []\<rparr>],
           GlobalLock = \<lparr>readers = 1, writer = False\<rparr>\<rparr>
   \<and> step (RLockEnter 1) \<lparr>TrainerRecLocks = [1 \<mapsto> \<lparr>NumReading = 0, NumWriting = 0, WrQueue = []\<rparr>],
           GlobalLock = \<lparr>readers = 1, writer = False\<rparr>\<rparr> =
     Some \<lparr>TrainerRecLocks = [1 \<mapsto> \<lparr>NumReading = 1, NumWriting = 0, WrQueue = []\<rparr>],
           GlobalLock = \<lparr>readers = 1, writer = False\<rparr>\<rparr>
   \<and> enqueued 1 arrival_trace = [0, 1] \<and> granted 1 arrival_trace = [0]
   \<and> granted 1 waiting_trace = [1]
   \<and> WUnlockLeave 1 \<in> set waiting_trace"
proof -
  have a: "run arrival_trace NewGlobalManager =
     Some \<lparr>TrainerRecLocks = [1 \<mapsto> \<lparr>NumReading = 0, NumWriting = 1, WrQueue = [1]\<rparr>],
           GlobalLock = \<lparr>readers = 3, writer = False\<rparr>\<rparr>"
    by (simp add: arrival_trace_def NewGlobalManager_def on_record_def GetRecordLock_def
        NewRecordLock_def WLockRecord_enqueue_def WLockRecord_acquire_def)
  have b: "run waiting_trace \<lparr>TrainerRecLocks = [1 \<mapsto> \<lparr>NumReading = 0, NumWriting = 1, WrQueue = [1]\<rparr>],
           GlobalLock = \<lparr>readers = 3, writer = False\<rparr>\<rparr> =
     Some \<lparr>TrainerRecLocks = [1 \<mapsto> \<lparr>NumReading = 0, NumWriting = 0, WrQueue = []\<rparr>],
           GlobalLock = \<lparr>readers = 1, writer = False\<rparr>\<rparr>"
    by (simp add: waiting_trace_def on_record_def GetRecordLock_def
        WUnlockRecord_section_def WLockRecord_acquire_def)
  have c: "step (RLockEnter 1) \<lparr>TrainerRecLocks = [1 \<mapsto> \<lparr>NumReading = 0, NumWriting = 0, WrQueue = []\<rparr>],
           GlobalLock = \<lparr>readers = 1, writer = False\<rparr>\<rparr> =
     Some \<lparr>TrainerRecLocks = [1 \<mapsto> \<lparr>NumReading = 1, NumWriting = 0, WrQueue = []\<rparr>],
           GlobalLock = \<lparr>readers = 1, writer = False\<rparr>\<rparr>"
    by (simp add: on_record_def GetRecordLock_def RLockRecord_section_def)
  show ?thesis
    using a b c writers_fifo_readers_wait [OF a b c]
    by (simp add: lock_of_def arrival_trace_def waiting_trace_def)
qed

section \<open>Properties of the record store\<close>

lemma get_put_uint16: "get_uint16 (put_uint16 w) = w"
  unfolding get_uint16_def put_uint16_def
  by (rule bit_word_eqI) (auto simp: bit_simps nth_Cons' not_less)

lemma length_put_uint16: "length (put_uint16 w) = 2"
  by (simp add: put_uint16_def)

lemma put_uint16_zero: "put_uint16 0 = [0, 0]"
  by (simp add: put_uint16_def)

lemma length_encode_PokeDisplay:
  "length (DisplayName d) = 12 \<Longrightarrow> length (encode_PokeDisplay d) = 14"
  by (simp add: encode_PokeDisplay_def length_put_uint16)

lemma decode_encode_PokeDisplay:
  "length (DisplayName d) = 12 \<Longrightarrow> decode_PokeDisplay (encode_PokeDisplay d) = d"
  by (simp add: encode_PokeDisplay_def decode_PokeDisplay_def bytes_at_def length_put_uint16 get_put_uint16)

lemma length_encode_TrainerRec:
  "arrays_ok t \<Longrightarrow> length (encode_TrainerRec t) = 102"
  by (simp add: arrays_ok_def encode_TrainerRec_def slots_def length_put_uint16 length_encode_PokeDisplay)

lemma decode_encode_TrainerRec:
  assumes "arrays_ok t"
  shows "decode_TrainerRec (encode_TrainerRec t) = t"
  using assms
  by (simp add: arrays_ok_def encode_TrainerRec_def decode_TrainerRec_def slots_def bytes_at_def
      length_put_uint16 length_encode_PokeDisplay decode_encode_PokeDisplay get_put_uint16)

lemma encode_zero_TrainerRec: "encode_TrainerRec zero_TrainerRec = replicate 102 0"
  by (simp add: encode_TrainerRec_def zero_TrainerRec_def slots_def encode_PokeDisplay_def
      zero_PokeDisplay_def put_uint16_zero replicate_append_same numeral_eq_Suc)


lemma zero_TrainerRec_ok: "arrays_ok (zero_TrainerRec\<lparr>ID := i, Name := copy_name name\<rparr>)"
  by (auto simp: arrays_ok_def zero_TrainerRec_def zero_PokeDisplay_def slots_def copy_name_def)

lemma slots_set_slot: "idx < 6 \<Longrightarrow> slots (set_slot idx d t) = (slots t)[idx := d]"
  by (auto simp: set_slot_def slots_def numeral_eq_Suc less_Suc_eq)

lemma ID_set_slot: "ID (set_slot idx d t) = ID t"
  by (simp add: set_slot_def)

lemma Name_set_slot: "Name (set_slot idx d t) = Name t"
  by (simp add: set_slot_def)

lemma length_slots: "length (slots t) = 6"
  by (simp add: slots_def)

lemma arrays_ok_set_slot:
  "arrays_ok t \<Longrightarrow> length (DisplayName d) = 12 \<Longrightarrow> idx < 6 \<Longrightarrow> arrays_ok (set_slot idx d t)"
  by (auto simp: arrays_ok_def slots_set_slot Name_set_slot list_all_iff dest!: set_update_subset_insert[THEN subsetD])

lemma seek_read_length:
  "seek_read file offset n = Inr bs \<Longrightarrow> 0 < n \<Longrightarrow> length bs = n \<and> offset + n \<le> length file"
  by (auto simp: seek_read_def Let_def split: if_splits)

lemma GetPokeName_length: "GetPokeName poke_file i = Inr name \<Longrightarrow> length name = 12"
  using seek_read_length[of poke_file _ 12 name] by (simp add: GetPokeName_def)

lemma post_slots_facts:
  "post_slots poke_file pokemon idx t = Inr t' \<Longrightarrow> arrays_ok t \<Longrightarrow>
     ID t' = ID t \<and> Name t' = Name t \<and> arrays_ok t'"
proof (induction poke_file pokemon idx t rule: post_slots.induct)
  case (1 poke_file pokemon idx trainer)
  show ?case
  proof (cases "idx < length pokemon \<and> idx < 6")
    case False
    with "1.prems" show ?thesis by (simp add: post_slots.simps[of _ _ idx])
  next
    case True
    from "1.prems"(1) True obtain name where
      n: "GetPokeName poke_file (pokemon ! idx) = Inr name" and
      r: "post_slots poke_file pokemon (idx + 1)
            (set_slot idx \<lparr>DisplayID = pokemon ! idx, DisplayName = name\<rparr> trainer) = Inr t'"
      by (auto simp: post_slots.simps[of _ _ idx] split: sum.splits)
    have ok: "arrays_ok (set_slot idx \<lparr>DisplayID = pokemon ! idx, DisplayName = name\<rparr> trainer)"
      using "1.prems"(2) True GetPokeName_length[OF n] by (simp add: arrays_ok_set_slot)
    from "1.IH"[OF True n r ok] show ?thesis by (simp add: ID_set_slot Name_set_slot)
  qed
qed

lemma post_slots_succeeds:
  "\<forall>j. idx \<le> j \<and> j < length pokemon \<and> j < 6 \<longrightarrow> resolves poke_file (pokemon ! j) \<Longrightarrow>
   \<exists>t'. post_slots poke_file pokemon idx t = Inr t'"
proof (induction poke_file pokemon idx t rule: post_slots.induct)
  case (1 poke_file pokemon idx trainer)
  show ?case
  proof (cases "idx < length pokemon \<and> idx < 6")
    case False
    then show ?thesis by (auto simp: post_slots.simps[of _ _ idx])
  next
    case True
    with "1.prems" have "resolves poke_file (pokemon ! idx)" by simp
    then obtain name where n: "GetPokeName poke_file (pokemon ! idx) = Inr name"
      by (auto simp: resolves_def split: sum.splits)
    have "\<forall>j. idx + 1 \<le> j \<and> j < length pokemon \<and> j < 6 \<longrightarrow> resolves poke_file (pokemon ! j)"
      using "1.prems" by simp
    from "1.IH"[OF True n this] True n show ?thesis by (simp add: post_slots.simps[of _ _ idx])
  qed
qed

lemma post_slots_fails:
  "idx \<le> j \<Longrightarrow> j < length pokemon \<Longrightarrow> j < 6 \<Longrightarrow> \<not> resolves poke_file (pokemon ! j) \<Longrightarrow>
   post_slots poke_file pokemon idx t = Inl (Errorf ''pokemon ID not found'')"
proof (induction poke_file pokemon idx t rule: post_slots.induct)
  case (1 poke_file pokemon idx trainer)
  have T: "idx < length pokemon \<and> idx < 6" using "1.prems" by simp
  show ?case
  proof (cases "GetPokeName poke_file (pokemon ! idx)")
    case (Inl e)
    with T show ?thesis by (simp add: post_slots.simps[of _ _ idx])
  next
    case (Inr name)
    with "1.prems"(4) have "idx \<noteq> j" by (auto simp: resolves_def)
    with "1.prems"(1) have "idx + 1 \<le> j" by simp
    from "1.IH"[OF T Inr this "1.prems"(2,3,4)] T Inr show ?thesis
      by (simp add: post_slots.simps[of _ _ idx])
  qed
qed

lemma put_slots_facts:
  "put_slots poke_file pokemon idx t = Inr t' \<Longrightarrow> arrays_ok t \<Longrightarrow>
     ID t' = ID t \<and> Name t' = Name t \<and> arrays_ok t' \<and>
     (\<forall>j<6. slots t' ! j =
        (if j < idx then slots t ! j
         else if j < length pokemon then resolved poke_file (pokemon ! j)
         else zero_PokeDisplay))"
proof (induction poke_file pokemon idx t rule: put_slots.induct)
  case (1 poke_file pokemon idx trainer)
  show ?case
  proof (cases "idx < 6")
    case False
    with "1.prems" show ?thesis by (simp add: put_slots.simps[of _ _ idx])
  next
    case six: True
    show ?thesis
    proof (cases "idx < length pokemon")
      case True
      from "1.prems"(1) six True obtain name where
        n: "GetPokeName poke_file (pokemon ! idx) = Inr name" and
        r: "put_slots poke_file pokemon (idx + 1)
              (set_slot idx \<lparr>DisplayID = pokemon ! idx, DisplayName = name\<rparr> trainer) = Inr t'"
        by (auto simp: put_slots.simps[of _ _ idx] split: sum.splits)
      let ?d = "\<lparr>DisplayID = pokemon ! idx, DisplayName = name\<rparr>"
      have d: "?d = resolved poke_file (pokemon ! idx)" using n by (simp add: resolved_def)
      have ok: "arrays_ok (set_slot idx ?d trainer)"
        using "1.prems"(2) six GetPokeName_length[OF n] by (simp add: arrays_ok_set_slot)
      from "1.IH"(1)[OF six True n r ok] six True d show ?thesis
        by (auto simp: ID_set_slot Name_set_slot slots_set_slot length_slots nth_list_update less_Suc_eq)
    next
      case False
      from "1.prems"(1) six False have
        r: "put_slots poke_file pokemon (idx + 1) (set_slot idx zero_PokeDisplay trainer) = Inr t'"
        by (simp add: put_slots.simps[of _ _ idx])
      have ok: "arrays_ok (set_slot idx zero_PokeDisplay trainer)"
        using "1.prems"(2) six by (simp add: arrays_ok_set_slot zero_PokeDisplay_def)
      from "1.IH"(2)[OF six False r ok] six False show ?thesis
        by (auto simp: ID_set_slot Name_set_slot slots_set_slot length_slots nth_list_update less_Suc_eq)
    qed
  qed
qed

lemma put_slots_error:
  "put_slots poke_file pokemon idx t = Inl e \<Longrightarrow> e = Errorf ''pokemon ID not found''"
proof (induction poke_file pokemon idx t rule: put_slots.induct)
  case (1 poke_file pokemon idx trainer)
  from "1.prems" show ?case
    by (subst (asm) put_slots.simps) (auto split: if_splits sum.splits intro: "1.IH")
qed

lemma post_slots_error:
  "post_slots poke_file pokemon idx t = Inl e \<Longrightarrow> e = Errorf ''pokemon ID not found''"
proof (induction poke_file pokemon idx t rule: post_slots.induct)
  case (1 poke_file pokemon idx trainer)
  from "1.prems" show ?case
    by (subst (asm) post_slots.simps) (auto split: if_splits sum.splits intro: "1.IH")
qed

lemma put_slots_fails:
  "idx \<le> j \<Longrightarrow> j < length pokemon \<Longrightarrow> j < 6 \<Longrightarrow> \<not> resolves poke_file (pokemon ! j) \<Longrightarrow>
   put_slots poke_file pokemon idx t = Inl (Errorf ''pokemon ID not found'')"
proof (induction poke_file pokemon idx t rule: put_slots.induct)
  case (1 poke_file pokemon idx trainer)
  have six: "idx < 6" and T: "idx < length pokemon" using "1.prems" by simp_all
  show ?case
  proof (cases "GetPokeName poke_file (pokemon ! idx)")
    case (Inl e)
    with T six show ?thesis by (simp add: put_slots.simps[of _ _ idx])
  next
    case (Inr name)
    with "1.prems"(4) have "idx \<noteq> j" by (auto simp: resolves_def)
    with "1.prems"(1) have "idx + 1 \<le> j" by simp
    from "1.IH"(1)[OF six T Inr this "1.prems"(2,3,4)] T six Inr show ?thesis
      by (simp add: put_slots.simps[of _ _ idx])
  qed
qed

lemma seek_write_end: "seek_write file (length file) bs = file @ bs"
  by (simp add: seek_write_def)

lemma seek_write_inside:
  "offset + length bs \<le> length file \<Longrightarrow>
   length (seek_write file offset bs) = length file \<and>
   seek_read (seek_write file offset bs) offset (length bs) = Inr bs \<and>
   take offset (seek_write file offset bs) = take offset file \<and>
   drop (offset + length bs) (seek_write file offset bs) = drop (offset + length bs) file"
  by (auto simp: seek_write_def seek_read_def Let_def)

lemma GetTrainer_inside:
  "GetTrainer trainer_file ident = Inr t \<Longrightarrow>
   unat (ident - 1) * 102 + 102 \<le> length trainer_file \<and> ID t \<noteq> 0"
  using seek_read_length[of trainer_file "unat (ident - 1) * 102" 102]
  by (auto simp: GetTrainer_def TrainerRec_size_def Let_def split: sum.splits if_splits)

lemma GetTrainer_arrays_ok: "GetTrainer trainer_file ident = Inr t \<Longrightarrow> length (Name t) = 16"
  using seek_read_length[of trainer_file "unat (ident - 1) * 102" 102]
  by (auto simp: GetTrainer_def TrainerRec_size_def Let_def decode_TrainerRec_def bytes_at_def
      split: sum.splits if_splits)

lemma resolves_iff: "resolves poke_file i \<longleftrightarrow> unat (i - 1) * 96 + 14 \<le> length poke_file"
  by (auto simp: resolves_def GetPokeName_def seek_read_def PokeRec_size_def Let_def split: sum.splits)

lemma GetTrainer_first:
  "arrays_ok t \<Longrightarrow> ID t \<noteq> 0 \<Longrightarrow> GetTrainer (encode_TrainerRec t) 1 = Inr t"
  by (simp add: GetTrainer_def seek_read_def TrainerRec_size_def Let_def
      length_encode_TrainerRec decode_encode_TrainerRec)

lemma arrays_ok_zero: "arrays_ok (zero_TrainerRec\<lparr>ID := i\<rparr>)"
  by (simp add: arrays_ok_def zero_TrainerRec_def zero_PokeDisplay_def slots_def)

lemma unat_word_of_nat_16: "n \<le> 65535 \<Longrightarrow> unat (word_of_nat n :: 16 word) = n"
  by (simp add: unat_of_nat)

text \<open>
  Claim C3. For every trainer file whose size is a multiple of the record size: if
  \<open>fileSize / recordSize + 1 \<le> 65535\<close> and every supplied species id resolves, \<open>PostTrainer\<close>
  succeeds, returns the id \<open>fileSize / recordSize + 1\<close> and appends exactly one record, so
  that the returned id equals the new \<open>fileSize / recordSize\<close>; if
  \<open>fileSize / recordSize + 1 > 65535\<close>, \<open>PostTrainer\<close> fails and leaves the file as it was.
\<close>

theorem PostTrainer_allocates:
  assumes size: "length trainer_file mod TrainerRec_size = 0"
  shows "(length trainer_file div TrainerRec_size + 1 \<le> 65535
            \<and> list_all (resolves poke_file) pokemon
          \<longrightarrow> (\<exists>record.
                 PostTrainer trainer_file poke_file name pokemon =
                   (trainer_file @ record,
                    Inr (word_of_nat (length trainer_file div TrainerRec_size + 1)))
               \<and> length record = TrainerRec_size
               \<and> unat (word_of_nat (length trainer_file div TrainerRec_size + 1) :: 16 word) =
                   length (trainer_file @ record) div TrainerRec_size))
       \<and> (length trainer_file div TrainerRec_size + 1 > 65535
          \<longrightarrow> PostTrainer trainer_file poke_file name pokemon =
                (trainer_file, Inl (Errorf ''next ID out of range'')))"
proof (intro conjI impI)
  assume a: "length trainer_file div TrainerRec_size + 1 \<le> 65535 \<and> list_all (resolves poke_file) pokemon"
  let ?next = "length trainer_file div TrainerRec_size + 1"
  let ?t0 = "zero_TrainerRec\<lparr>ID := word_of_nat ?next, Name := copy_name name\<rparr>"
  have "\<forall>j. (0::nat) \<le> j \<and> j < length pokemon \<and> j < 6 \<longrightarrow> resolves poke_file (pokemon ! j)"
    using a by (simp add: list_all_length)
  from post_slots_succeeds[OF this]
  obtain t where t: "post_slots poke_file pokemon 0 ?t0 = Inr t" by blast
  have facts: "ID t = word_of_nat ?next" "arrays_ok t"
    using post_slots_facts[OF t zero_TrainerRec_ok] by simp_all
  have len: "length (encode_TrainerRec t) = TrainerRec_size"
    using facts(2) by (simp add: length_encode_TrainerRec TrainerRec_size_def)
  have post: "PostTrainer trainer_file poke_file name pokemon =
      (trainer_file @ encode_TrainerRec t, Inr (word_of_nat ?next))"
    using size a t facts(1) by (simp add: PostTrainer_def Let_def seek_write_end)
  from a have "?next \<le> 65535" by blast
  then have "unat (word_of_nat ?next :: 16 word) = ?next"
    by (rule unat_word_of_nat_16)
  moreover have "length (trainer_file @ encode_TrainerRec t) div TrainerRec_size = ?next"
    using len by (simp add: TrainerRec_size_def)
  ultimately show "\<exists>record.
                 PostTrainer trainer_file poke_file name pokemon =
                   (trainer_file @ record, Inr (word_of_nat ?next))
               \<and> length record = TrainerRec_size
               \<and> unat (word_of_nat ?next :: 16 word) =
                   length (trainer_file @ record) div TrainerRec_size"
    using post len by (intro exI[of _ "encode_TrainerRec t"]) simp
next
  assume "length trainer_file div TrainerRec_size + 1 > 65535"
  then show "PostTrainer trainer_file poke_file name pokemon =
                (trainer_file, Inl (Errorf ''next ID out of range''))"
    using size by (simp add: PostTrainer_def Let_def)
qed

theorem PostTrainer_allocates_witness:
  "length ([] :: byte list) mod TrainerRec_size = 0
   \<and> length ([] :: byte list) div TrainerRec_size + 1 \<le> 65535
   \<and> list_all (resolves one_species_file) [1]
   \<and> snd (PostTrainer [] one_species_file [65, 115, 104] [1]) = Inr 1
   \<and> length (fst (PostTrainer [] one_species_file [65, 115, 104] [1])) = 102
   \<and> length full_trainer_file mod TrainerRec_size = 0
   \<and> length full_trainer_file div TrainerRec_size + 1 > 65535
   \<and> PostTrainer full_trainer_file one_species_file [65, 115, 104] [1] =
       (full_trainer_file, Inl (Errorf ''next ID out of range''))"
proof -
  have r: "list_all (resolves one_species_file) [1]"
    by (simp add: resolves_iff one_species_file_def)
  have f: "length full_trainer_file mod TrainerRec_size = 0"
      "length full_trainer_file div TrainerRec_size + 1 > 65535"
    by (simp_all add: full_trainer_file_def TrainerRec_size_def)
  show ?thesis
    using r f
      PostTrainer_allocates [of "[]" one_species_file "[1]" "[65, 115, 104]"]
      PostTrainer_allocates [OF f(1), of one_species_file "[1]" "[65, 115, 104]"]
    by (auto simp: TrainerRec_size_def)
qed

lemma decode_zeros: "ID (decode_TrainerRec (replicate 102 0)) = 0"
  using decode_encode_TrainerRec[OF arrays_ok_zero[of 0]] encode_zero_TrainerRec
  by (simp add: zero_TrainerRec_def)

text \<open>
  Claim C4. For every trainer id \<open>k\<close> and every file on which \<open>DeleteTrainer k\<close> succeeds:
  the record at offset \<open>(k - 1) * recordSize\<close> is overwritten with zeros, the file size is
  unchanged, and a following \<open>GetTrainer k\<close> returns the error "trainer ID not found".
\<close>

theorem DeleteTrainer_zeroes:
  assumes "DeleteTrainer trainer_file k = (trainer_file', None)"
  shows "bytes_at trainer_file' (unat (k - 1) * TrainerRec_size) TrainerRec_size =
           replicate TrainerRec_size 0
       \<and> length trainer_file' = length trainer_file
       \<and> GetTrainer trainer_file' k = Inl (Errorf ''trainer ID not found'')"
proof -
  let ?off = "unat (k - 1) * 102"
  from assms obtain t where t: "GetTrainer trainer_file k = Inr t"
    and w: "trainer_file' = seek_write trainer_file ?off (replicate 102 0)"
    by (auto simp: DeleteTrainer_def TrainerRec_size_def encode_zero_TrainerRec
        split: sum.splits if_splits)
  have "?off + length (replicate 102 (0::byte)) \<le> length trainer_file"
    using GetTrainer_inside[OF t] by simp
  from seek_write_inside[OF this] w
  have len: "length trainer_file' = length trainer_file"
    and rd: "seek_read trainer_file' ?off 102 = Inr (replicate 102 0)"
    by simp_all
  have sl: "bytes_at trainer_file' ?off 102 = replicate 102 0"
    using rd by (auto simp: seek_read_def bytes_at_def Let_def split: if_splits)
  have "GetTrainer trainer_file' k = Inl (Errorf ''trainer ID not found'')"
    using rd decode_zeros by (simp add: GetTrainer_def TrainerRec_size_def Let_def)
  with len sl show ?thesis by (simp add: TrainerRec_size_def)
qed

lemma DeleteTrainer_first:
  "arrays_ok t \<Longrightarrow> ID t \<noteq> 0 \<Longrightarrow>
   DeleteTrainer (encode_TrainerRec t) 1 = (replicate 102 0, None)"
  by (simp add: DeleteTrainer_def GetTrainer_first length_encode_TrainerRec TrainerRec_size_def
      seek_write_def encode_zero_TrainerRec)

theorem DeleteTrainer_zeroes_witness:
  "DeleteTrainer one_trainer_file 1 = (replicate 102 0, None)
   \<and> bytes_at (replicate 102 0) (unat (1 - 1 :: 16 word) * TrainerRec_size) TrainerRec_size =
       replicate TrainerRec_size 0
   \<and> length (replicate 102 (0 :: byte)) = length one_trainer_file
   \<and> GetTrainer (replicate 102 0) 1 = Inl (Errorf ''trainer ID not found'')"
proof -
  have d: "DeleteTrainer one_trainer_file 1 = (replicate 102 0, None)"
    by (simp add: one_trainer_file_def DeleteTrainer_first arrays_ok_zero)
  show ?thesis using d DeleteTrainer_zeroes [OF d] by simp
qed

lemma put_slots_resolves:
  assumes "put_slots poke_file pokemon 0 t = Inr t'" and "length pokemon \<le> 6"
  shows "list_all (resolves poke_file) pokemon"
proof -
  have "resolves poke_file (pokemon ! j)" if "j < length pokemon" for j
  proof (rule ccontr)
    assume "\<not> resolves poke_file (pokemon ! j)"
    with that assms(2) have "put_slots poke_file pokemon 0 t = Inl (Errorf ''pokemon ID not found'')"
      by (intro put_slots_fails[of 0 j]) auto
    with assms(1) show False by simp
  qed
  then show ?thesis by (simp add: list_all_length)
qed

text \<open>
  Claim C5. For every live trainer id \<open>k\<close> and every list \<open>L\<close> of at most six species ids:
  when \<open>PutTrainer k L\<close> succeeds, every id of \<open>L\<close> resolves, and \<open>GetTrainer k\<close> then
  returns a record with the id and the name of the record before the call, whose six slots
  are the ids of \<open>L\<close>, each with its resolved 12-byte name, followed by all-zero slots.
\<close>

theorem PutTrainer_then_GetTrainer:
  assumes live: "GetTrainer trainer_file k = Inr old"
    and short: "length L \<le> 6"
    and put: "PutTrainer trainer_file poke_file k L = (trainer_file', None)"
  shows "list_all (resolves poke_file) L
       \<and> (\<exists>t. GetTrainer trainer_file' k = Inr t
              \<and> ID t = ID old \<and> Name t = Name old
              \<and> slots t = map (resolved poke_file) L @ replicate (6 - length L) zero_PokeDisplay)"
proof -
  let ?off = "unat (k - 1) * 102"
  let ?t0 = "zero_TrainerRec\<lparr>ID := ID old, Name := Name old\<rparr>"
  from put live obtain t where t: "put_slots poke_file L 0 ?t0 = Inr t"
    and w: "trainer_file' = seek_write trainer_file ?off (encode_TrainerRec t)"
    by (auto simp: PutTrainer_def TrainerRec_size_def split: sum.splits if_splits)
  have ok0: "arrays_ok ?t0"
    using GetTrainer_arrays_ok[OF live]
    by (simp add: arrays_ok_def zero_TrainerRec_def zero_PokeDisplay_def slots_def)
  from put_slots_facts[OF t ok0]
  have idn: "ID t = ID old" "Name t = Name old" and ok: "arrays_ok t"
    and sl: "\<forall>j<6. slots t ! j =
        (if j < length L then resolved poke_file (L ! j) else zero_PokeDisplay)"
    by simp_all
  have len: "length (encode_TrainerRec t) = 102" using ok by (rule length_encode_TrainerRec)
  have "?off + length (encode_TrainerRec t) \<le> length trainer_file"
    using GetTrainer_inside[OF live] len by simp
  from seek_write_inside[OF this] w len
  have rd: "seek_read trainer_file' ?off 102 = Inr (encode_TrainerRec t)" by simp
  have "ID t \<noteq> 0" using idn GetTrainer_inside[OF live] by simp
  then have get: "GetTrainer trainer_file' k = Inr t"
    using rd by (simp add: GetTrainer_def TrainerRec_size_def Let_def decode_encode_TrainerRec[OF ok])
  have "slots t = map (resolved poke_file) L @ replicate (6 - length L) zero_PokeDisplay"
  proof (rule nth_equalityI)
    show "length (slots t) = length (map (resolved poke_file) L @ replicate (6 - length L) zero_PokeDisplay)"
      using short by (simp add: length_slots)
  next
    fix j assume "j < length (slots t)"
    then have j: "j < 6" by (simp add: length_slots)
    with sl short show "slots t ! j = (map (resolved poke_file) L @ replicate (6 - length L) zero_PokeDisplay) ! j"
      by (auto simp: nth_append)
  qed
  with get idn put_slots_resolves[OF t short] show ?thesis by simp
qed


lemma put_slots_succeeds:
  "\<forall>j. idx \<le> j \<and> j < length pokemon \<and> j < 6 \<longrightarrow> resolves poke_file (pokemon ! j) \<Longrightarrow>
   \<exists>t'. put_slots poke_file pokemon idx t = Inr t'"
proof (induction poke_file pokemon idx t rule: put_slots.induct)
  case (1 poke_file pokemon idx trainer)
  show ?case
  proof (cases "idx < 6")
    case False
    then show ?thesis by (simp add: put_slots.simps[of _ _ idx])
  next
    case six: True
    have rest: "\<forall>j. idx + 1 \<le> j \<and> j < length pokemon \<and> j < 6 \<longrightarrow> resolves poke_file (pokemon ! j)"
      using "1.prems" by simp
    show ?thesis
    proof (cases "idx < length pokemon")
      case True
      with "1.prems" six have "resolves poke_file (pokemon ! idx)" by simp
      then obtain name where n: "GetPokeName poke_file (pokemon ! idx) = Inr name"
        by (auto simp: resolves_def split: sum.splits)
      from "1.IH"(1)[OF six True n rest] six True n show ?thesis
        by (simp add: put_slots.simps[of _ _ idx])
    next
      case False
      from "1.IH"(2)[OF six False rest] six False show ?thesis
        by (simp add: put_slots.simps[of _ _ idx])
    qed
  qed
qed

lemma PutTrainer_succeeds:
  assumes "GetTrainer trainer_file k = Inr old"
    and "length trainer_file mod TrainerRec_size = 0"
    and "list_all (resolves poke_file) pokemon"
  shows "snd (PutTrainer trainer_file poke_file k pokemon) = None"
proof -
  have "\<forall>j. (0::nat) \<le> j \<and> j < length pokemon \<and> j < 6 \<longrightarrow> resolves poke_file (pokemon ! j)"
    using assms(3) by (simp add: list_all_length)
  from put_slots_succeeds[OF this]
  obtain t where "put_slots poke_file pokemon 0 (zero_TrainerRec\<lparr>ID := ID old, Name := Name old\<rparr>) = Inr t"
    by blast
  with assms(1,2) show ?thesis by (simp add: PutTrainer_def)
qed

theorem PutTrainer_then_GetTrainer_witness:
  "GetTrainer one_trainer_file 1 = Inr (zero_TrainerRec\<lparr>ID := 1\<rparr>)
   \<and> length [1 :: 16 word] \<le> 6
   \<and> PutTrainer one_trainer_file one_species_file 1 [1] =
       (fst (PutTrainer one_trainer_file one_species_file 1 [1]), None)
   \<and> list_all (resolves one_species_file) [1]
   \<and> (\<exists>t. GetTrainer (fst (PutTrainer one_trainer_file one_species_file 1 [1])) 1 = Inr t
          \<and> ID t = 1 \<and> Name t = replicate 16 0
          \<and> slots t = [\<lparr>DisplayID = 1, DisplayName = replicate 12 0\<rparr>, zero_PokeDisplay,
               zero_PokeDisplay, zero_PokeDisplay, zero_PokeDisplay, zero_PokeDisplay])"
proof -
  have g: "GetTrainer one_trainer_file 1 = Inr (zero_TrainerRec\<lparr>ID := 1\<rparr>)"
    by (simp add: one_trainer_file_def GetTrainer_first arrays_ok_zero)
  have r: "list_all (resolves one_species_file) [1]"
    by (simp add: resolves_iff one_species_file_def)
  have m: "length one_trainer_file mod TrainerRec_size = 0"
    by (simp add: one_trainer_file_def length_encode_TrainerRec arrays_ok_zero TrainerRec_size_def)
  have p: "PutTrainer one_trainer_file one_species_file 1 [1] =
       (fst (PutTrainer one_trainer_file one_species_file 1 [1]), None)"
    using PutTrainer_succeeds[OF g m r] by (simp add: prod_eq_iff)
  have l: "length [1 :: 16 word] \<le> 6" by simp
  have n: "resolved one_species_file 1 = \<lparr>DisplayID = 1, DisplayName = replicate 12 0\<rparr>"
    by (simp add: resolved_def GetPokeName_def seek_read_def one_species_file_def PokeRec_size_def)
  show ?thesis
    using g l p r n PutTrainer_then_GetTrainer [OF g l p]
    by (simp add: zero_TrainerRec_def numeral_eq_Suc)
qed

text \<open>
  Claim C6 as stated fails. \<open>PutTrainer\<close> on a trainer that does not exist returns
  "trainer ID not found" before it looks at the species ids, also when one of them does
  not resolve; and both operations read only the first six ids, so \<open>PostTrainer\<close> with a
  seventh id that does not resolve succeeds and appends a record.
\<close>

theorem unresolved_species_counterexample:
  "\<not> resolves [] 1
   \<and> PutTrainer [] [] 1 [1] = ([], Some (Errorf ''trainer ID not found''))
   \<and> Errorf ''trainer ID not found'' \<noteq> Errorf ''pokemon ID not found''
   \<and> \<not> resolves one_species_file 2
   \<and> snd (PostTrainer [] one_species_file [65, 115, 104] [1, 1, 1, 1, 1, 1, 2]) = Inr 1
   \<and> length (fst (PostTrainer [] one_species_file [65, 115, 104] [1, 1, 1, 1, 1, 1, 2])) = 102"
proof -
  have a: "\<not> resolves [] 1" by (simp add: resolves_iff)
  have b: "PutTrainer [] [] 1 [1] = ([], Some (Errorf ''trainer ID not found''))"
    by (simp add: PutTrainer_def GetTrainer_def seek_read_def TrainerRec_size_def)
  have c: "\<not> resolves one_species_file 2" by (simp add: resolves_iff one_species_file_def)
  let ?t0 = "zero_TrainerRec\<lparr>ID := word_of_nat (length ([]::byte list) div TrainerRec_size + 1),
                Name := copy_name [65, 115, 104]\<rparr>"
  have "\<forall>j. (0::nat) \<le> j \<and> j < length [1, 1, 1, 1, 1, 1, 2 :: 16 word] \<and> j < 6
          \<longrightarrow> resolves one_species_file ([1, 1, 1, 1, 1, 1, 2] ! j)"
    by (auto simp: resolves_iff one_species_file_def nth_Cons' less_Suc_eq numeral_eq_Suc)
  from post_slots_succeeds[OF this]
  obtain t where t: "post_slots one_species_file [1, 1, 1, 1, 1, 1, 2] 0 ?t0 = Inr t" by blast
  from post_slots_facts[OF t zero_TrainerRec_ok] have f: "ID t = 1" "arrays_ok t" by simp_all
  have d: "PostTrainer [] one_species_file [65, 115, 104] [1, 1, 1, 1, 1, 1, 2] =
      (encode_TrainerRec t, Inr 1)"
    using t f(1) by (simp add: PostTrainer_def Let_def seek_write_def TrainerRec_size_def)
  show ?thesis using a b c d length_encode_TrainerRec[OF f(2)] by simp
qed

text \<open>
  Claim C6, amended. For every \<open>PostTrainer\<close> or \<open>PutTrainer\<close> call in which one of the
  first six supplied species ids does not resolve (also after earlier ids resolved), the
  operation returns an error and the trainer file is left unchanged. The error is
  "pokemon ID not found" whenever the checks that precede the resolution pass: for
  \<open>PostTrainer\<close>, the file size is a multiple of the record size and the next id is at
  most 65535; for \<open>PutTrainer\<close>, trainer \<open>k\<close> is live and the file size is a multiple of
  the record size.
\<close>

theorem unresolved_species_writes_nothing:
  assumes "j < length pokemon" and "j < 6" and "\<not> resolves poke_file (pokemon ! j)"
  shows "fst (PostTrainer trainer_file poke_file name pokemon) = trainer_file
       \<and> (\<exists>err. snd (PostTrainer trainer_file poke_file name pokemon) = Inl err)
       \<and> (length trainer_file mod TrainerRec_size = 0
            \<and> length trainer_file div TrainerRec_size + 1 \<le> 65535
          \<longrightarrow> snd (PostTrainer trainer_file poke_file name pokemon) =
                Inl (Errorf ''pokemon ID not found''))
       \<and> fst (PutTrainer trainer_file poke_file k pokemon) = trainer_file
       \<and> (\<exists>err. snd (PutTrainer trainer_file poke_file k pokemon) = Some err)
       \<and> ((\<exists>old. GetTrainer trainer_file k = Inr old)
            \<and> length trainer_file mod TrainerRec_size = 0
          \<longrightarrow> snd (PutTrainer trainer_file poke_file k pokemon) =
                Some (Errorf ''pokemon ID not found''))"
proof -
  have post: "post_slots poke_file pokemon 0 t = Inl (Errorf ''pokemon ID not found'')" for t
    using assms by (intro post_slots_fails[of 0 j]) auto
  have put: "put_slots poke_file pokemon 0 t = Inl (Errorf ''pokemon ID not found'')" for t
    using assms by (intro put_slots_fails[of 0 j]) auto
  have 1: "fst (PostTrainer trainer_file poke_file name pokemon) = trainer_file"
    by (simp add: PostTrainer_def Let_def post)
  have 2: "\<exists>err. snd (PostTrainer trainer_file poke_file name pokemon) = Inl err"
    by (simp add: PostTrainer_def Let_def post)
  have 3: "length trainer_file mod TrainerRec_size = 0
            \<and> length trainer_file div TrainerRec_size + 1 \<le> 65535
          \<longrightarrow> snd (PostTrainer trainer_file poke_file name pokemon) =
                Inl (Errorf ''pokemon ID not found'')"
    by (simp add: PostTrainer_def Let_def post)
  have 4: "fst (PutTrainer trainer_file poke_file k pokemon) = trainer_file"
    by (simp add: PutTrainer_def put split: sum.splits)
  have 5: "\<exists>err. snd (PutTrainer trainer_file poke_file k pokemon) = Some err"
    by (simp add: PutTrainer_def put split: sum.splits)
  have 6: "(\<exists>old. GetTrainer trainer_file k = Inr old)
            \<and> length trainer_file mod TrainerRec_size = 0
          \<longrightarrow> snd (PutTrainer trainer_file poke_file k pokemon) =
                Some (Errorf ''pokemon ID not found'')"
    by (auto simp: PutTrainer_def put)
  from 1 2 3 4 5 6 show ?thesis by blast
qed

theorem unresolved_species_writes_nothing_witness:
  "(0::nat) < length [1, 2 :: 16 word] \<and> (1::nat) < 6 \<and> \<not> resolves one_species_file ([1, 2] ! 1)
   \<and> GetTrainer one_trainer_file 1 = Inr (zero_TrainerRec\<lparr>ID := 1\<rparr>)
   \<and> length one_trainer_file mod TrainerRec_size = 0
   \<and> length one_trainer_file div TrainerRec_size + 1 \<le> 65535
   \<and> PostTrainer one_trainer_file one_species_file [65, 115, 104] [1, 2] =
       (one_trainer_file, Inl (Errorf ''pokemon ID not found''))
   \<and> PutTrainer one_trainer_file one_species_file 1 [1, 2] =
       (one_trainer_file, Some (Errorf ''pokemon ID not found''))"
proof -
  have g: "GetTrainer one_trainer_file 1 = Inr (zero_TrainerRec\<lparr>ID := 1\<rparr>)"
    by (simp add: one_trainer_file_def GetTrainer_first arrays_ok_zero)
  have l: "length one_trainer_file = 102"
    by (simp add: one_trainer_file_def length_encode_TrainerRec arrays_ok_zero)
  have h: "(1::nat) < length [1, 2 :: 16 word]" "(1::nat) < 6"
      "\<not> resolves one_species_file ([1, 2] ! 1)"
    by (simp_all add: resolves_iff one_species_file_def)
  show ?thesis
    using g l h
      unresolved_species_writes_nothing [OF h, of one_trainer_file "[65, 115, 104]" 1]
    by (simp add: TrainerRec_size_def prod_eq_iff)
qed

section \<open>Properties of the framed transport\<close>

lemma get_put_uint32_be: "get_uint32_be (put_uint32_be w) = w"
proof (rule bit_word_eqI)
  fix n assume "n < LENGTH(32)"
  then consider "n < 8" | "8 \<le> n" "n < 16" | "16 \<le> n" "n < 24" | "24 \<le> n" "n < 32"
    by fastforce
  then show "bit (get_uint32_be (put_uint32_be w)) n = bit w n"
    by cases (auto simp: get_uint32_be_def put_uint32_be_def bit_simps)
qed

lemma length_put_uint32_be: "length (put_uint32_be w) = 4"
  by (simp add: put_uint32_be_def)

lemma chunk_bounds: "0 < limit \<Longrightarrow> 0 < chunk steps limit \<and> chunk steps limit \<le> limit"
  by (auto simp: chunk_def split: list.splits io_step.splits)

lemma fp_Write_ok:
  assumes "Fail \<notin> set (sched c)" and "buf \<noteq> []"
  shows "\<exists>m c'. fp_Write c buf = (Inr m, c') \<and> 0 < m \<and> m \<le> length buf
           \<and> outbound c' = outbound c @ take m buf \<and> inbound c' = inbound c
           \<and> Fail \<notin> set (sched c')"
proof -
  have "0 < length buf" using assms(2) by simp
  from chunk_bounds[OF this, of "sched c"] assms(1) show ?thesis
    by (cases "sched c") (auto simp: fp_Write_def Let_def split: io_step.splits)
qed

lemma write_loop_ok:
  "Fail \<notin> set (sched c) \<Longrightarrow> total_n \<le> length packet \<Longrightarrow>
   \<exists>c'. write_loop c packet total_n = (None, c')
      \<and> outbound c' = outbound c @ drop total_n packet \<and> inbound c' = inbound c"
proof (induction c packet total_n rule: write_loop.induct)
  case (1 c packet total_n)
  show ?case
  proof (cases "total_n < length packet")
    case False
    with "1.prems" show ?thesis by (simp add: write_loop.simps[of c])
  next
    case True
    then have "drop total_n packet \<noteq> []" by simp
    from fp_Write_ok[OF "1.prems"(1) this] obtain m c1 where
      w: "fp_Write c (drop total_n packet) = (Inr m, c1)" and m: "0 < m" "m \<le> length (drop total_n packet)"
      and o: "outbound c1 = outbound c @ take m (drop total_n packet)" and i: "inbound c1 = inbound c"
      and f: "Fail \<notin> set (sched c1)" by blast
    have le: "total_n + m \<le> length packet" using m(2) True by simp
    from "1.IH"[OF True w[symmetric] refl f le] obtain c' where
      r: "write_loop c1 packet (total_n + m) = (None, c')"
      and o': "outbound c' = outbound c1 @ drop (total_n + m) packet" and i': "inbound c' = inbound c1"
      by blast
    have "take m (drop total_n packet) @ drop (total_n + m) packet = drop total_n packet"
      by (metis add.commute append_take_drop_id drop_drop)
    with o o' have "outbound c' = outbound c @ drop total_n packet" by simp
    with r i i' True w show ?thesis by (simp add: write_loop.simps[of c])
  qed
qed

lemma fp_Read_ok:
  assumes "Fail \<notin> set (sched c)" and "0 < n" and "n \<le> length (inbound c)"
  shows "\<exists>m c'. fp_Read c n = (Inr (take m (inbound c)), c') \<and> 0 < m \<and> m \<le> n
           \<and> inbound c' = drop m (inbound c) \<and> outbound c' = outbound c
           \<and> Fail \<notin> set (sched c')"
proof -
  have ne: "inbound c \<noteq> []" using assms(2,3) by auto
  have "0 < min n (length (inbound c))" using assms(2,3) by simp
  from chunk_bounds[OF this, of "sched c"] assms(1) ne show ?thesis
    by (cases "sched c") (auto simp: fp_Read_def Let_def split: io_step.splits)
qed

lemma read_loop_ok:
  "Fail \<notin> set (sched c) \<Longrightarrow> total_n \<le> want \<Longrightarrow> want - total_n \<le> length (inbound c) \<Longrightarrow>
   \<exists>c'. read_loop c want total_n buf = (Inr (buf @ take (want - total_n) (inbound c)), c')
      \<and> inbound c' = drop (want - total_n) (inbound c) \<and> outbound c' = outbound c
      \<and> Fail \<notin> set (sched c')"
proof (induction c want total_n buf rule: read_loop.induct)
  case (1 c want total_n buf)
  show ?case
  proof (cases "total_n < want")
    case False
    with "1.prems" show ?thesis by (simp add: read_loop.simps[of c])
  next
    case True
    then have pos: "0 < want - total_n" by simp
    from fp_Read_ok[OF "1.prems"(1) pos "1.prems"(3)] obtain m c1 where
      rd: "fp_Read c (want - total_n) = (Inr (take m (inbound c)), c1)"
      and m: "0 < m" "m \<le> want - total_n"
      and i: "inbound c1 = drop m (inbound c)" and o: "outbound c1 = outbound c"
      and f: "Fail \<notin> set (sched c1)" by blast
    have lm: "length (take m (inbound c)) = m" using m(2) "1.prems"(3) by simp
    have "total_n + m \<le> want" using m(2) True by arith
    then have le: "total_n + length (take m (inbound c)) \<le> want" by (simp only: lm)
    have "want - (total_n + m) \<le> length (inbound c) - m" using "1.prems"(3) by arith
    then have av: "want - (total_n + length (take m (inbound c))) \<le> length (inbound c1)"
      by (simp only: lm i length_drop)
    from "1.IH"[OF True rd[symmetric] refl f le av] obtain c' where
      r: "read_loop c1 want (total_n + length (take m (inbound c))) (buf @ take m (inbound c)) =
            (Inr ((buf @ take m (inbound c)) @
                  take (want - (total_n + length (take m (inbound c)))) (inbound c1)), c')"
      and i': "inbound c' = drop (want - (total_n + length (take m (inbound c)))) (inbound c1)"
      and o': "outbound c' = outbound c1" and f': "Fail \<notin> set (sched c')"
      by blast
    have split: "want - total_n = m + (want - (total_n + m))" using m(2) by simp
    have t: "take m (inbound c) @ take (want - (total_n + m)) (drop m (inbound c)) =
          take (want - total_n) (inbound c)"
      by (subst split) (simp only: take_add)
    have d: "drop (want - (total_n + m)) (drop m (inbound c)) = drop (want - total_n) (inbound c)"
      by (subst split) (simp add: add.commute)
    from r i' o' f' i o lm t d True rd show ?thesis
      by (simp add: read_loop.simps[of c])
  qed
qed

lemma ReallyWrite_ok:
  assumes "Fail \<notin> set (sched fp)"
  shows "\<exists>fp'. ReallyWrite fp msg = (None, fp')
           \<and> outbound fp' = outbound fp @ put_uint32_be (word_of_nat (length msg)) @ msg"
  using write_loop_ok[OF assms, of 0 "put_uint32_be (word_of_nat (length msg)) @ msg"]
  by (auto simp: ReallyWrite_def Let_def)

lemma ReallyRead_ok:
  assumes f: "Fail \<notin> set (sched fp)"
    and i: "inbound fp = put_uint32_be w @ payload"
    and l: "unat w \<le> length payload"
  shows "\<exists>fp'. ReallyRead fp = (Inr (take (unat w) payload), fp')
           \<and> inbound fp' = drop (unat w) payload"
proof -
  have "4 - 0 \<le> length (inbound fp)" using i by (simp add: length_put_uint32_be)
  from read_loop_ok[OF f _ this, of "[]"] obtain c1 where
    r1: "read_loop fp 4 0 [] = (Inr (take 4 (inbound fp)), c1)"
    and i1: "inbound c1 = drop 4 (inbound fp)" and f1: "Fail \<notin> set (sched c1)"
    by auto
  have hd: "take 4 (inbound fp) = put_uint32_be w" and tl: "inbound c1 = payload"
    using i i1 by (simp_all add: length_put_uint32_be)
  have "unat w - 0 \<le> length (inbound c1)" using l tl by simp
  from read_loop_ok[OF f1 _ this, of "[]"] obtain c2 where
    r2: "read_loop c1 (unat w) 0 [] = (Inr (take (unat w) (inbound c1)), c2)"
    and i2: "inbound c2 = drop (unat w) (inbound c1)"
    by auto
  from r1 r2 i2 hd tl show ?thesis by (simp add: ReallyRead_def get_put_uint32_be)
qed


lemma zero_length_prefix: "put_uint32_be 4294967296 = [0, 0, 0, 0]"
  by (simp add: put_uint32_be_def)

lemma two_length_prefix: "put_uint32_be 2 = [0, 0, 0, 2]"
  by (simp add: put_uint32_be_def drop_bit_eq_div)

text \<open>
  Claim C9 as stated fails for a message of \<open>2^32\<close> bytes: its length has no 4-byte
  encoding, \<open>uint32(len(data))\<close> is 0, \<open>ReallyWrite\<close> emits the prefix 0 0 0 0 before
  the bytes of the message, and \<open>ReallyRead\<close> on that stream returns the empty message.
\<close>

theorem framing_round_trip_counterexample:
  "length huge_message = 4294967296
   \<and> fst (ReallyWrite idle_conn huge_message) = None
   \<and> outbound (snd (ReallyWrite idle_conn huge_message)) = [0, 0, 0, 0] @ huge_message
   \<and> fst (ReallyRead (idle_conn\<lparr>inbound := [0, 0, 0, 0] @ huge_message\<rparr>)) = Inr []
   \<and> huge_message \<noteq> []"
proof -
  have l: "length huge_message = 4294967296" by (simp add: huge_message_def)
  have f: "Fail \<notin> set (sched idle_conn)" by (simp add: idle_conn_def)
  from ReallyWrite_ok[OF f, of huge_message] l
  have w: "fst (ReallyWrite idle_conn huge_message) = None"
      "outbound (snd (ReallyWrite idle_conn huge_message)) = [0, 0, 0, 0] @ huge_message"
    by (auto simp: zero_length_prefix idle_conn_def)
  have f': "Fail \<notin> set (sched (idle_conn\<lparr>inbound := [0, 0, 0, 0] @ huge_message\<rparr>))"
    by (simp add: idle_conn_def)
  have i: "inbound (idle_conn\<lparr>inbound := [0, 0, 0, 0] @ huge_message\<rparr>) =
      put_uint32_be 0 @ huge_message"
    by (simp add: put_uint32_be_def)
  from ReallyRead_ok[OF f' i]
  have r: "fst (ReallyRead (idle_conn\<lparr>inbound := [0, 0, 0, 0] @ huge_message\<rparr>)) = Inr []"
    by auto
  have "huge_message \<noteq> []" using l by auto
  with l w r show ?thesis by simp
qed

text \<open>
  Claim C9, amended. For every message of fewer than \<open>2^32\<close> bytes, the empty one
  included, and however the calls of \<open>Write\<close> and \<open>Read\<close> are cut short, as long as none
  fails: \<open>ReallyWrite\<close> returns nil and emits exactly the 4-byte big-endian encoding of
  the length followed by the bytes of the message, and \<open>ReallyRead\<close> on a stream that
  begins with these bytes returns the message and leaves the rest of the stream unread.
\<close>

theorem framing_round_trip:
  assumes "length msg < 2 ^ 32"
    and "Fail \<notin> set (sched sender)"
    and "Fail \<notin> set (sched receiver)"
    and "inbound receiver = put_uint32_be (word_of_nat (length msg)) @ msg @ rest"
  shows "fst (ReallyWrite sender msg) = None
       \<and> outbound (snd (ReallyWrite sender msg)) =
           outbound sender @ put_uint32_be (word_of_nat (length msg)) @ msg
       \<and> unat (word_of_nat (length msg) :: 32 word) = length msg
       \<and> fst (ReallyRead receiver) = Inr msg
       \<and> inbound (snd (ReallyRead receiver)) = rest"
proof -
  have u: "unat (word_of_nat (length msg) :: 32 word) = length msg"
    using assms(1) by (simp add: unat_of_nat)
  have "unat (word_of_nat (length msg) :: 32 word) \<le> length (msg @ rest)" using u by simp
  from ReallyRead_ok[OF assms(3,4) this] u
  have r: "fst (ReallyRead receiver) = Inr msg" "inbound (snd (ReallyRead receiver)) = rest"
    by auto
  from ReallyWrite_ok[OF assms(2), of msg] u r show ?thesis by auto
qed

theorem framing_round_trip_witness:
  "length [104, 105 :: byte] < 2 ^ 32
   \<and> Fail \<notin> set (sched chunked_sender)
   \<and> Fail \<notin> set (sched chunked_receiver)
   \<and> inbound chunked_receiver = [0, 0, 0, 2] @ [104, 105] @ [7]
   \<and> fst (ReallyWrite chunked_sender [104, 105]) = None
   \<and> outbound (snd (ReallyWrite chunked_sender [104, 105])) = [0, 0, 0, 2, 104, 105]
   \<and> fst (ReallyRead chunked_receiver) = Inr [104, 105]
   \<and> inbound (snd (ReallyRead chunked_receiver)) = [7]"
proof -
  have h: "length [104, 105 :: byte] < 2 ^ 32"
      "Fail \<notin> set (sched chunked_sender)"
      "Fail \<notin> set (sched chunked_receiver)"
    by (simp_all add: chunked_sender_def chunked_receiver_def)
  have i: "inbound chunked_receiver =
      put_uint32_be (word_of_nat (length [104, 105 :: byte])) @ [104, 105] @ [7]"
    by (simp add: two_length_prefix chunked_receiver_def)
  show ?thesis
    using h framing_round_trip [OF h i]
    by (simp add: two_length_prefix chunked_sender_def chunked_receiver_def)
qed

section \<open>Properties of request handling\<close>

lemma post_without_ids_captures:
  "ReqPostTrainer ''POST_TRAINER Ash'' = [''POST_TRAINER Ash'', ''Ash'', [], [], [], [], [], []]"
  by (simp add: ReqPostTrainer_def strip_prefix_def is_space_def Let_def numeral_eq_Suc)

text \<open>
  Claim C7 says that a frame outside the grammar, in particular \<open>POST_TRAINER\<close> with a
  name and no species id, is answered with exactly one \<open>CLIENT_REQ_INVALID\<close> frame. The
  code does otherwise: all six id groups of the pattern are optional, so the request
  \<open>POST_TRAINER Ash\<close> matches, the \<open>switch\<close> runs \<open>process_req_post_trainer\<close>, and the
  handler returns at \<open>len(pokemon) == 0\<close> without writing any frame and without touching
  the trainer file.
\<close>

theorem post_without_ids_gets_no_reply:
  "handle_client_switch ''POST_TRAINER Ash'' = Run_post_trainer
   \<and> process_req_post_trainer ''POST_TRAINER Ash'' trainer_file poke_file = ([], trainer_file)"
  by (simp add: handle_client_switch_def process_req_post_trainer_def post_without_ids_captures
      ReqGetPokeID_def ReqGetTrainerID_def ReqGetTrainerAll_def strip_prefix_def)

lemma GetPokemon_EOF:
  "length poke_file \<le> unat (ident - 1) * PokeRec_size \<Longrightarrow> GetPokemon poke_file ident = Inl EOF"
  by (simp add: GetPokemon_def seek_read_def PokeRec_size_def)

lemma GetPokemon_short:
  "unat (ident - 1) * PokeRec_size < length poke_file \<Longrightarrow>
   length poke_file < unat (ident - 1) * PokeRec_size + PokeRec_size \<Longrightarrow>
   GetPokemon poke_file ident = Inl ErrUnexpectedEOF"
  by (auto simp: GetPokemon_def seek_read_def PokeRec_size_def Let_def)

lemma get_poke_1_captures: "ReqGetPokeID ''REQ_POKE_ID 1'' = [''REQ_POKE_ID 1'', ''1'']"
  by (simp add: ReqGetPokeID_def strip_prefix_def positive_decimal_def)

lemma get_poke_2_captures: "ReqGetPokeID ''REQ_POKE_ID 2'' = [''REQ_POKE_ID 2'', ''2'']"
  by (simp add: ReqGetPokeID_def strip_prefix_def positive_decimal_def)

lemma Atoi_1: "Atoi ''1'' = (1, None)"
  by (simp add: Atoi_def decimal_value_def)

lemma Atoi_2: "Atoi ''2'' = (2, None)"
  by (simp add: Atoi_def decimal_value_def)

text \<open>
  Claim C8 as stated fails when some but not all bytes of the record are in the file:
  on a species file of 50 bytes \<open>GetPokemon\<close> returns \<open>io.ErrUnexpectedEOF\<close> for id 1,
  which is not \<open>io.EOF\<close>, and the session replies \<open>SERVER_ERROR\<close>.
\<close>

theorem short_species_read_counterexample:
  "GetPokemon truncated_species_file 1 = Inl ErrUnexpectedEOF
   \<and> process_req_get_poke ''REQ_POKE_ID 1'' truncated_species_file = [Token ''SERVER_ERROR'']"
proof -
  have g: "GetPokemon truncated_species_file 1 = Inl ErrUnexpectedEOF"
    by (simp add: GetPokemon_short truncated_species_file_def PokeRec_size_def)
  then show ?thesis
    by (simp add: process_req_get_poke_def get_poke_1_captures Atoi_1)
qed

text \<open>
  Claim C8, amended. For every request \<open>REQ_POKE_ID n\<close> and the species id that the
  handler derives from it: when no byte of the species file lies at offset
  \<open>(id - 1) * speciesSize\<close>, \<open>GetPokemon\<close> returns \<open>io.EOF\<close> and the session replies
  \<open>OUT_OF_BOUNDS\<close>; when some but fewer than \<open>speciesSize\<close> bytes lie there, \<open>GetPokemon\<close>
  returns \<open>io.ErrUnexpectedEOF\<close> and the session replies \<open>SERVER_ERROR\<close>.
\<close>

theorem short_species_read:
  assumes "ReqGetPokeID req = [req, arg]" and "ident = word_of_int (fst (Atoi arg))"
  shows "(length poke_file \<le> unat (ident - 1) * PokeRec_size
          \<longrightarrow> GetPokemon poke_file ident = Inl EOF
              \<and> process_req_get_poke req poke_file = [Token ''OUT_OF_BOUNDS''])
       \<and> (unat (ident - 1) * PokeRec_size < length poke_file
            \<and> length poke_file < unat (ident - 1) * PokeRec_size + PokeRec_size
          \<longrightarrow> GetPokemon poke_file ident = Inl ErrUnexpectedEOF
              \<and> process_req_get_poke req poke_file = [Token ''SERVER_ERROR''])"
proof (intro conjI impI)
  assume a: "length poke_file \<le> unat (ident - 1) * PokeRec_size"
  from GetPokemon_EOF[OF a] show "GetPokemon poke_file ident = Inl EOF" .
  with assms show "process_req_get_poke req poke_file = [Token ''OUT_OF_BOUNDS'']"
    by (simp add: process_req_get_poke_def)
next
  assume a: "unat (ident - 1) * PokeRec_size < length poke_file
            \<and> length poke_file < unat (ident - 1) * PokeRec_size + PokeRec_size"
  then have g: "GetPokemon poke_file ident = Inl ErrUnexpectedEOF"
    by (simp add: GetPokemon_short)
  then show "GetPokemon poke_file ident = Inl ErrUnexpectedEOF" .
  from g assms show "process_req_get_poke req poke_file = [Token ''SERVER_ERROR'']"
    by (simp add: process_req_get_poke_def)
qed

theorem short_species_read_witness:
  "ReqGetPokeID ''REQ_POKE_ID 2'' = [''REQ_POKE_ID 2'', ''2'']
   \<and> (2 :: 16 word) = word_of_int (fst (Atoi ''2''))
   \<and> length one_species_file \<le> unat (2 - 1 :: 16 word) * PokeRec_size
   \<and> GetPokemon one_species_file 2 = Inl EOF
   \<and> process_req_get_poke ''REQ_POKE_ID 2'' one_species_file = [Token ''OUT_OF_BOUNDS'']
   \<and> ReqGetPokeID ''REQ_POKE_ID 1'' = [''REQ_POKE_ID 1'', ''1'']
   \<and> (1 :: 16 word) = word_of_int (fst (Atoi ''1''))
   \<and> unat (1 - 1 :: 16 word) * PokeRec_size < length truncated_species_file
   \<and> length truncated_species_file < unat (1 - 1 :: 16 word) * PokeRec_size + PokeRec_size
   \<and> GetPokemon truncated_species_file 1 = Inl ErrUnexpectedEOF
   \<and> process_req_get_poke ''REQ_POKE_ID 1'' truncated_species_file = [Token ''SERVER_ERROR'']"
proof -
  have i2: "(2 :: 16 word) = word_of_int (fst (Atoi ''2''))" by (simp add: Atoi_2)
  have i1: "(1 :: 16 word) = word_of_int (fst (Atoi ''1''))" by (simp add: Atoi_1)
  have l2: "length one_species_file \<le> unat (2 - 1 :: 16 word) * PokeRec_size"
    by (simp add: one_species_file_def PokeRec_size_def)
  have l1: "unat (1 - 1 :: 16 word) * PokeRec_size < length truncated_species_file"
      "length truncated_species_file < unat (1 - 1 :: 16 word) * PokeRec_size + PokeRec_size"
    by (simp_all add: truncated_species_file_def PokeRec_size_def)
  show ?thesis
    using i1 i2 l1 l2 get_poke_1_captures get_poke_2_captures
      short_species_read [OF get_poke_2_captures i2, of one_species_file]
      short_species_read [OF get_poke_1_captures i1, of truncated_species_file]
    by simp
qed

end
